theory Spec2Isabelle
  imports Complex_Main "HOL-Library.AList"
begin

section \<open>Trust ledger: contribution levels (accounts/models.py)\<close>

text \<open>
  \<^verbatim>\<open>Contribution.LEVELS\<close> is a class attribute: a list of
  (threshold, level name, badge class) triples.
\<close>

type_synonym level = "int \<times> string \<times> string"

definition LEVELS :: "level list" where
  "LEVELS =
     [(0, ''New Explorer'', ''secondary''),
      (50, ''Local Contributor'', ''info''),
      (120, ''Trusted Guide'', ''success''),
      (250, ''Community Champion'', ''warning'')]"

text \<open>
  The loop of \<^verbatim>\<open>level_name\<close>: walk the table in order, remember the name of
  every threshold the points reach, and \<^verbatim>\<open>break\<close> at the first threshold above
  the points.
\<close>

fun level_name_loop :: "int \<Rightarrow> level list \<Rightarrow> string \<Rightarrow> string" where
  "level_name_loop pts [] name = name"
| "level_name_loop pts ((threshold, lname, badge_class) # rest) name =
     (if pts \<ge> threshold then level_name_loop pts rest lname else name)"

text \<open>
  \<^verbatim>\<open>name = self.LEVELS[0][1]\<close> raises IndexError on an empty table: \<open>None\<close>.
\<close>

definition level_name_in :: "level list \<Rightarrow> int \<Rightarrow> string option" where
  "level_name_in levels pts =
     (case levels of
        [] \<Rightarrow> None
      | (t0, n0, b0) # _ \<Rightarrow> Some (level_name_loop pts levels n0))"

text \<open>The property \<^verbatim>\<open>level_name\<close> on the class's own table, which is not empty:
  the start value is \<^verbatim>\<open>self.LEVELS[0][1]\<close>.\<close>

definition level_name :: "int \<Rightarrow> string" where
  "level_name pts = level_name_loop pts LEVELS (fst (snd (LEVELS ! 0)))"

text \<open>
  The words of the specification: a name is "the name attached to the highest threshold
  at or below the points" when some row of the table carries it, the row's threshold is
  at or below the points, and no row at or below the points has a higher threshold.
\<close>

definition is_highest_level :: "level list \<Rightarrow> int \<Rightarrow> string \<Rightarrow> bool" where
  "is_highest_level levels pts name =
     list_ex (\<lambda>(t, n, b). n = name \<and> t \<le> pts \<and>
        list_all (\<lambda>(t', n', b'). t' \<le> pts \<longrightarrow> t' \<le> t) levels) levels"

text \<open>The rank of a level: the position of its name in the table (the table's length
  for a name that is not in it).\<close>

fun level_rank_in :: "level list \<Rightarrow> string \<Rightarrow> nat" where
  "level_rank_in [] name = 0"
| "level_rank_in ((t, n, b) # rest) name =
     (if n = name then 0 else Suc (level_rank_in rest name))"

definition level_rank :: "string \<Rightarrow> nat" where
  "level_rank name = level_rank_in LEVELS name"

section \<open>Data model\<close>

type_synonym user_id = nat
type_synonym datetime = nat

text \<open>\<^verbatim>\<open>request.user\<close>: the anonymous user or an authenticated account.\<close>

datatype request_user = AnonymousUser | User user_id

text \<open>Every exception the modelled code can raise is a value.\<close>

datatype error =
    ValueError | DatabaseError | IntegrityError
  | RequestException | JSONDecodeError | AttributeError | KeyError | TypeError

subsection \<open>Contribution (accounts/models.py)\<close>

record contribution =
  places_added :: nat
  reviews_added :: nat
  points :: int
  upheld_reports_count :: nat
  review_restriction_active :: bool

datatype contribution_field =
  CF_places_added | CF_reviews_added | CF_points | CF_upheld_reports_count
  | CF_review_restriction_active

text \<open>The field defaults of a row that \<^verbatim>\<open>get_or_create\<close> creates.\<close>

definition new_contribution :: contribution where
  "new_contribution =
     \<lparr>places_added = 0, reviews_added = 0, points = 0, upheld_reports_count = 0,
      review_restriction_active = False\<rparr>"

subsection \<open>Place (places/models.py)\<close>

datatype ModerationStatus = PENDING | APPROVED | REJECTED

text \<open>The concrete class of a polymorphic place: the base model or one of its four
  subtypes.\<close>

datatype place_model = Place | HeritagePlace | FoodPlace | ActivityPlace | BeachPlace

text \<open>
  The columns of the base table that moderation, the ledger and the nearby query read
  or write. \<open>pk\<close> is \<open>None\<close> on an instance that was never saved.
\<close>

record place =
  pk :: "nat option"
  model :: place_model
  moderation_status :: ModerationStatus
  is_approved :: bool
  is_archived :: bool
  archived_at :: "datetime option"
  archived_by :: "user_id option"
  created_by :: "user_id option"
  latitude :: "real option"
  longitude :: "real option"

text \<open>Column names for \<^verbatim>\<open>update_fields\<close>; \<open>PF_other\<close> stands for a column that
  is not part of the record (name, opening hours, ...).\<close>

datatype place_field =
  PF_moderation_status | PF_is_approved | PF_is_archived | PF_archived_at | PF_archived_by
  | PF_created_by | PF_latitude | PF_longitude | PF_other

subsection \<open>Review, ReviewReport, ModerationLog (reviews/models.py)\<close>

record review =
  review_pk :: "nat option"
  review_place :: nat
  review_user :: "user_id option"
  review_text :: string
  rating :: nat
  review_is_approved :: bool
  reported :: bool
  report_reason :: string
  moderation_penalty_applied :: bool
  review_is_archived :: bool
  review_archived_at :: "datetime option"
  review_archived_by :: "user_id option"
  created_at :: datetime

datatype review_field =
  RF_place | RF_user | RF_text | RF_rating | RF_is_approved | RF_reported | RF_report_reason
  | RF_moderation_penalty_applied | RF_is_archived | RF_archived_at | RF_archived_by

datatype ReportStatus = REPORT_PENDING | UPHELD | DISMISSED

record review_report =
  report_review :: nat
  reporter :: user_id
  reason :: string
  status :: ReportStatus

datatype Action =
  PLACE_APPROVED | PLACE_REJECTED | PLACE_ARCHIVED | PLACE_RESTORED
  | REVIEW_UPHELD | REVIEW_DISMISSED | REVIEW_ARCHIVED | REVIEW_RESTORED

datatype content_type = PlaceContent | ReviewContent

record moderation_log_entry =
  actor :: "user_id option"
  action :: Action
  target_type :: content_type
  object_id :: "nat option"
  log_notes :: string

subsection \<open>The relational store\<close>

text \<open>
  A table is the list of its rows with their primary keys, in the order the database
  returns them; \<open>map_of\<close> is the lookup by primary key and \<open>AList.update\<close> the
  write of one row. The sequences are the next automatic primary keys (they start at 1).
  Contributions are one-to-one with users and keyed by the user. \<open>clock\<close> is what
  \<^verbatim>\<open>timezone.now()\<close> reads.
\<close>

record database =
  places :: "(nat \<times> place) list"
  place_seq :: nat
  reviews :: "(nat \<times> review) list"
  review_seq :: nat
  contributions :: "user_id \<rightharpoonup> contribution"
  reports :: "review_report list"
  moderation_log :: "moderation_log_entry list"
  clock :: datetime

definition empty_database :: database where
  "empty_database =
     \<lparr>places = [], place_seq = 1, reviews = [], review_seq = 1, contributions = Map.empty,
      reports = [], moderation_log = [], clock = 0\<rparr>"

section \<open>Trust ledger writes\<close>

text \<open>
  \<^verbatim>\<open>contribution.save(update_fields=[...])\<close> writes the named columns of the
  instance over the stored row and leaves the others.
\<close>

definition write_contribution_fields ::
  "contribution_field list \<Rightarrow> contribution \<Rightarrow> contribution \<Rightarrow> contribution" where
  "write_contribution_fields fs inst row =
     row\<lparr>places_added :=
           (if CF_places_added \<in> set fs then places_added inst else places_added row),
         reviews_added :=
           (if CF_reviews_added \<in> set fs then reviews_added inst else reviews_added row),
         points := (if CF_points \<in> set fs then points inst else points row),
         upheld_reports_count :=
           (if CF_upheld_reports_count \<in> set fs then upheld_reports_count inst
            else upheld_reports_count row),
         review_restriction_active :=
           (if CF_review_restriction_active \<in> set fs then review_restriction_active inst
            else review_restriction_active row)\<rparr>"

text \<open>
  \<^verbatim>\<open>Contribution.objects.get_or_create(user=u)\<close>: the stored row, or a new row with
  the defaults, which is stored.
\<close>

definition Contribution_get_or_create :: "user_id \<Rightarrow> database \<Rightarrow> contribution \<times> database" where
  "Contribution_get_or_create u db =
     (case contributions db u of
        Some c \<Rightarrow> (c, db)
      | None \<Rightarrow> (new_contribution, db\<lparr>contributions := (contributions db)(u \<mapsto> new_contribution)\<rparr>))"

text \<open>
  \<^verbatim>\<open>contribution.save(update_fields=fs)\<close> for the instance of user \<open>u\<close>. The
  callers save an instance they have just fetched with \<^verbatim>\<open>get_or_create\<close>, so the
  row exists; Django raises DatabaseError when it does not.
\<close>

definition Contribution_save ::
  "user_id \<Rightarrow> contribution \<Rightarrow> contribution_field list \<Rightarrow> database \<Rightarrow> error + database" where
  "Contribution_save u inst fs db =
     (case contributions db u of
        None \<Rightarrow> Inl DatabaseError
      | Some row \<Rightarrow>
          Inr (db\<lparr>contributions := (contributions db)(u \<mapsto> write_contribution_fields fs inst row)\<rparr>))"

text \<open>accounts/signals.py, \<^verbatim>\<open>create_contribution\<close>: the post-save handler of User.\<close>

definition create_contribution :: "user_id \<Rightarrow> bool \<Rightarrow> database \<Rightarrow> database" where
  "create_contribution instance created db =
     (if created then snd (Contribution_get_or_create instance db) else db)"

section \<open>Saving a place (places/models.py, places/signals.py)\<close>

text \<open>
  A truthy primary key, as in \<^verbatim>\<open>if instance.pk:\<close>: set and not zero.
\<close>

definition pk_truthy :: "nat option \<Rightarrow> bool" where
  "pk_truthy k = (k \<noteq> None \<and> k \<noteq> Some 0)"

text \<open>
  \<^verbatim>\<open>_set_previous_status\<close> (the pre-save handler): the stored moderation status
  of the row with the instance's primary key, \<open>None\<close> when the key is not truthy or no
  such row is stored. The handler keeps it on the instance as
  \<^verbatim>\<open>_previous_moderation_status\<close>; the model passes it to the post-save handler.
\<close>

definition set_previous_status :: "place \<Rightarrow> database \<Rightarrow> ModerationStatus option" where
  "set_previous_status instance db =
     (if pk_truthy (pk instance)
      then map_option moderation_status (map_of (places db) (the (pk instance)))
      else None)"

text \<open>
  \<^verbatim>\<open>_award_points_if_newly_approved\<close> (the post-save handler), given the previous
  status the pre-save handler recorded.
\<close>

definition award_points_if_newly_approved ::
  "place \<Rightarrow> ModerationStatus option \<Rightarrow> database \<Rightarrow> error + database" where
  "award_points_if_newly_approved instance previous_status db =
     (if previous_status = Some APPROVED then Inr db
      else if moderation_status instance \<noteq> APPROVED then Inr db
      else case created_by instance of
        None \<Rightarrow> Inr db
      | Some u \<Rightarrow>
          (case Contribution_get_or_create u db of
             (contribution, db1) \<Rightarrow>
               Contribution_save u
                 (contribution\<lparr>places_added := places_added contribution + 1,
                    points := points contribution + 50\<rparr>)
                 [CF_places_added, CF_points] db1))"

text \<open>
  \<^verbatim>\<open>_connect_place_signals\<close> is called for the base model and the four subtypes.
\<close>

definition connected_senders :: "place_model list" where
  "connected_senders = [Place, HeritagePlace, FoodPlace, ActivityPlace, BeachPlace]"

text \<open>An UPDATE of the named columns: the other columns keep the stored values.\<close>

definition write_place_fields :: "place_field list \<Rightarrow> place \<Rightarrow> place \<Rightarrow> place" where
  "write_place_fields fs inst row =
     row\<lparr>moderation_status :=
           (if PF_moderation_status \<in> set fs then moderation_status inst else moderation_status row),
         is_approved := (if PF_is_approved \<in> set fs then is_approved inst else is_approved row),
         is_archived := (if PF_is_archived \<in> set fs then is_archived inst else is_archived row),
         archived_at := (if PF_archived_at \<in> set fs then archived_at inst else archived_at row),
         archived_by := (if PF_archived_by \<in> set fs then archived_by inst else archived_by row),
         created_by := (if PF_created_by \<in> set fs then created_by inst else created_by row),
         latitude := (if PF_latitude \<in> set fs then latitude inst else latitude row),
         longitude := (if PF_longitude \<in> set fs then longitude inst else longitude row)\<rparr>"

text \<open>
  The table write of Django's \<^verbatim>\<open>Model.save\<close>. Without a primary key the row is
  inserted under the next key of the sequence (with \<^verbatim>\<open>update_fields\<close> Django
  raises ValueError instead). With a primary key the stored row is updated: every column
  when \<^verbatim>\<open>update_fields\<close> is None, else the named ones; when no row has the key, a
  full save inserts the row and a save with \<^verbatim>\<open>update_fields\<close> raises
  DatabaseError.
\<close>

definition Place_save_table ::
  "place \<Rightarrow> place_field list option \<Rightarrow> database \<Rightarrow> error + (place \<times> database)" where
  "Place_save_table self update_fields db =
     (case pk self of
        None \<Rightarrow>
          (case update_fields of
             Some fs \<Rightarrow> Inl ValueError
           | None \<Rightarrow>
               (if map_of (places db) (place_seq db) \<noteq> None then Inl IntegrityError
                else
                  let self' = self\<lparr>pk := Some (place_seq db)\<rparr>
                  in Inr (self',
                       db\<lparr>places := AList.update (place_seq db) self' (places db),
                          place_seq := Suc (place_seq db)\<rparr>)))
      | Some k \<Rightarrow>
          (case map_of (places db) k of
             Some row \<Rightarrow>
               Inr (self,
                 db\<lparr>places :=
                      AList.update k
                        (case update_fields of
                           None \<Rightarrow> self
                         | Some fs \<Rightarrow> write_place_fields fs self row)
                        (places db)\<rparr>)
           | None \<Rightarrow>
               (case update_fields of
                  Some fs \<Rightarrow> Inl DatabaseError
                | None \<Rightarrow>
                    Inr (self,
                      db\<lparr>places := AList.update k self (places db),
                         place_seq := max (place_seq db) (Suc k)\<rparr>))))"

text \<open>
  \<^verbatim>\<open>Place.save\<close>. It first overwrites the instance's \<^verbatim>\<open>is_approved\<close> with
  \<^verbatim>\<open>moderation_status == APPROVED\<close> (the query for the previous status in the
  method body is not used), then calls \<^verbatim>\<open>Model.save\<close>: an empty
  \<^verbatim>\<open>update_fields\<close> list returns at once, without signals; otherwise the pre-save
  handler runs, the table is written, and the post-save handler runs. The result is the
  instance as the caller holds it afterwards, and the store.
\<close>

definition Place_save ::
  "place \<Rightarrow> place_field list option \<Rightarrow> database \<Rightarrow> error + (place \<times> database)" where
  "Place_save self update_fields db =
     (let self1 = self\<lparr>is_approved := (moderation_status self = APPROVED)\<rparr> in
      if update_fields = Some [] then Inr (self1, db)
      else
        let previous_status =
              (if model self1 \<in> set connected_senders then set_previous_status self1 db
               else None)
        in case Place_save_table self1 update_fields db of
             Inl e \<Rightarrow> Inl e
           | Inr (self2, db2) \<Rightarrow>
               (if model self2 \<in> set connected_senders
                then (case award_points_if_newly_approved self2 previous_status db2 of
                        Inl e \<Rightarrow> Inl e
                      | Inr db3 \<Rightarrow> Inr (self2, db3))
                else Inr (self2, db2)))"

section \<open>Moderation log (reviews/moderation.py)\<close>

definition log_moderation_action ::
  "request_user \<Rightarrow> Action \<Rightarrow> content_type \<Rightarrow> nat option \<Rightarrow> string \<Rightarrow> database \<Rightarrow> database" where
  "log_moderation_action the_actor the_action ct oid the_notes db =
     db\<lparr>moderation_log := moderation_log db @
          [\<lparr>actor = (case the_actor of User u \<Rightarrow> Some u | AnonymousUser \<Rightarrow> None),
            action = the_action, target_type = ct, object_id = oid, log_notes = the_notes\<rparr>]\<rparr>"

text \<open>
  Assigning \<^verbatim>\<open>request.user\<close> to a foreign key to User: the anonymous user is not a
  User instance and Django raises ValueError.
\<close>

definition assign_user :: "request_user \<Rightarrow> error + user_id option" where
  "assign_user ru = (case ru of AnonymousUser \<Rightarrow> Inl ValueError | User u \<Rightarrow> Inr (Some u))"

section \<open>Place admin actions (places/admin.py)\<close>

text \<open>
  A queryset is the list of the primary keys selected; iterating it after
  \<^verbatim>\<open>filter\<close>/\<^verbatim>\<open>exclude\<close> loads the matching rows once, before the loop body
  runs.
\<close>

definition load_places :: "(place \<Rightarrow> bool) \<Rightarrow> nat list \<Rightarrow> database \<Rightarrow> place list" where
  "load_places cond queryset db =
     List.map_filter
       (\<lambda>k. case map_of (places db) k of
               None \<Rightarrow> None
             | Some row \<Rightarrow> if cond row then Some (row\<lparr>pk := Some k\<rparr>) else None)
       queryset"

fun approve_places_loop :: "request_user \<Rightarrow> place list \<Rightarrow> database \<Rightarrow> error + database" where
  "approve_places_loop ru [] db = Inr db"
| "approve_places_loop ru (place # rest) db =
     (case Place_save (place\<lparr>moderation_status := APPROVED\<rparr>)
             (Some [PF_moderation_status, PF_is_approved]) db of
        Inl e \<Rightarrow> Inl e
      | Inr (place', db') \<Rightarrow>
          approve_places_loop ru rest
            (log_moderation_action ru PLACE_APPROVED PlaceContent (pk place')
               ''Approved from Place admin action.'' db'))"

definition approve_places :: "request_user \<Rightarrow> nat list \<Rightarrow> database \<Rightarrow> error + database" where
  "approve_places ru queryset db =
     approve_places_loop ru
       (load_places (\<lambda>p. moderation_status p \<noteq> APPROVED) queryset db) db"

fun reject_places_loop :: "request_user \<Rightarrow> place list \<Rightarrow> database \<Rightarrow> error + database" where
  "reject_places_loop ru [] db = Inr db"
| "reject_places_loop ru (place # rest) db =
     (case Place_save (place\<lparr>moderation_status := REJECTED, is_approved := False\<rparr>)
             (Some [PF_moderation_status, PF_is_approved]) db of
        Inl e \<Rightarrow> Inl e
      | Inr (place', db') \<Rightarrow>
          reject_places_loop ru rest
            (log_moderation_action ru PLACE_REJECTED PlaceContent (pk place')
               ''Rejected from Place admin action.'' db'))"

definition reject_places :: "request_user \<Rightarrow> nat list \<Rightarrow> database \<Rightarrow> error + database" where
  "reject_places ru queryset db =
     reject_places_loop ru (load_places (\<lambda>p. True) queryset db) db"

text \<open>The body of the archive loop, shared by \<^verbatim>\<open>archive_places\<close> and
  \<^verbatim>\<open>delete_model\<close>, which differ in the note they log.\<close>

definition archive_place ::
  "request_user \<Rightarrow> datetime \<Rightarrow> string \<Rightarrow> place \<Rightarrow> database \<Rightarrow> error + database" where
  "archive_place ru now note place db =
     (case assign_user ru of
        Inl e \<Rightarrow> Inl e
      | Inr by \<Rightarrow>
          (case Place_save
                  (place\<lparr>is_archived := True, archived_at := Some now, archived_by := by,
                     is_approved := False\<rparr>)
                  (Some [PF_is_archived, PF_archived_at, PF_archived_by, PF_is_approved]) db of
             Inl e \<Rightarrow> Inl e
           | Inr (place', db') \<Rightarrow>
               Inr (log_moderation_action ru PLACE_ARCHIVED PlaceContent (pk place') note db')))"

fun archive_places_loop ::
  "request_user \<Rightarrow> datetime \<Rightarrow> place list \<Rightarrow> database \<Rightarrow> error + database" where
  "archive_places_loop ru now [] db = Inr db"
| "archive_places_loop ru now (place # rest) db =
     (case archive_place ru now ''Archived via Place admin.'' place db of
        Inl e \<Rightarrow> Inl e
      | Inr db' \<Rightarrow> archive_places_loop ru now rest db')"

definition archive_places :: "request_user \<Rightarrow> nat list \<Rightarrow> database \<Rightarrow> error + database" where
  "archive_places ru queryset db =
     archive_places_loop ru (clock db) (load_places (\<lambda>p. \<not> is_archived p) queryset db) db"

fun restore_places_loop :: "request_user \<Rightarrow> place list \<Rightarrow> database \<Rightarrow> error + database" where
  "restore_places_loop ru [] db = Inr db"
| "restore_places_loop ru (place # rest) db =
     (case Place_save (place\<lparr>is_archived := False, archived_at := None, archived_by := None\<rparr>)
             (Some [PF_is_archived, PF_archived_at, PF_archived_by]) db of
        Inl e \<Rightarrow> Inl e
      | Inr (place', db') \<Rightarrow>
          restore_places_loop ru rest
            (log_moderation_action ru PLACE_RESTORED PlaceContent (pk place')
               ''Restored via Place admin.'' db'))"

definition restore_places :: "request_user \<Rightarrow> nat list \<Rightarrow> database \<Rightarrow> error + database" where
  "restore_places ru queryset db =
     restore_places_loop ru (load_places (\<lambda>p. is_archived p) queryset db) db"

text \<open>\<^verbatim>\<open>PlaceAdmin.delete_model\<close> archives the one place the admin page shows.\<close>

definition Place_delete_model :: "request_user \<Rightarrow> place \<Rightarrow> database \<Rightarrow> error + database" where
  "Place_delete_model ru obj db =
     archive_place ru (clock db) ''Archived via single delete in admin.'' obj db"

text \<open>\<^verbatim>\<open>PlaceAdmin.delete_queryset\<close> is \<^verbatim>\<open>archive_places\<close>.\<close>

definition Place_delete_queryset ::
  "request_user \<Rightarrow> nat list \<Rightarrow> database \<Rightarrow> error + database" where
  "Place_delete_queryset ru queryset db = archive_places ru queryset db"

text \<open>places/forms.py, \<^verbatim>\<open>PlaceOpeningHoursForm.save\<close> with \<^verbatim>\<open>commit=True\<close>: the
  three opening-hours columns are written, none of which is in the record.\<close>

definition opening_hours_save :: "place \<Rightarrow> database \<Rightarrow> error + (place \<times> database)" where
  "opening_hours_save instance db = Place_save instance (Some [PF_other, PF_other, PF_other]) db"

section \<open>Saving a review (reviews/models.py, accounts/signals.py)\<close>

definition write_review_fields :: "review_field list \<Rightarrow> review \<Rightarrow> review \<Rightarrow> review" where
  "write_review_fields fs inst row =
     row\<lparr>review_place := (if RF_place \<in> set fs then review_place inst else review_place row),
         review_user := (if RF_user \<in> set fs then review_user inst else review_user row),
         review_text := (if RF_text \<in> set fs then review_text inst else review_text row),
         rating := (if RF_rating \<in> set fs then rating inst else rating row),
         review_is_approved :=
           (if RF_is_approved \<in> set fs then review_is_approved inst else review_is_approved row),
         reported := (if RF_reported \<in> set fs then reported inst else reported row),
         report_reason :=
           (if RF_report_reason \<in> set fs then report_reason inst else report_reason row),
         moderation_penalty_applied :=
           (if RF_moderation_penalty_applied \<in> set fs then moderation_penalty_applied inst
            else moderation_penalty_applied row),
         review_is_archived :=
           (if RF_is_archived \<in> set fs then review_is_archived inst else review_is_archived row),
         review_archived_at :=
           (if RF_archived_at \<in> set fs then review_archived_at inst else review_archived_at row),
         review_archived_by :=
           (if RF_archived_by \<in> set fs then review_archived_by inst
            else review_archived_by row)\<rparr>"

text \<open>
  The constraint \<^verbatim>\<open>one_review_per_user_per_place\<close>: among the rows that are not
  archived, the pair (place, user) is unique; rows without a user never collide. The row
  \<open>r\<close> is about to be stored under key \<open>k\<close>.
\<close>

definition violates_one_review_per_user_per_place ::
  "nat \<Rightarrow> review \<Rightarrow> (nat \<times> review) list \<Rightarrow> bool" where
  "violates_one_review_per_user_per_place k r table =
     (\<not> review_is_archived r \<and> review_user r \<noteq> None \<and>
      list_ex (\<lambda>(k', r'). k' \<noteq> k \<and> \<not> review_is_archived r' \<and>
                 review_place r' = review_place r \<and> review_user r' = review_user r) table)"

text \<open>\<^verbatim>\<open>award_points_for_review\<close>: the post-save handler of Review.\<close>

definition award_points_for_review :: "review \<Rightarrow> bool \<Rightarrow> database \<Rightarrow> error + database" where
  "award_points_for_review instance created db =
     (if created \<and> review_user instance \<noteq> None
      then (case Contribution_get_or_create (the (review_user instance)) db of
              (contribution, db1) \<Rightarrow>
                Contribution_save (the (review_user instance))
                  (contribution\<lparr>reviews_added := reviews_added contribution + 1,
                     points := points contribution + 10\<rparr>)
                  [CF_reviews_added, CF_points] db1)
      else Inr db)"

text \<open>
  The insert of a review row under key \<open>k\<close>: \<^verbatim>\<open>created_at\<close> is
  \<^verbatim>\<open>auto_now_add\<close>, the place must exist (foreign key) and the uniqueness
  constraint must hold. The post-save handler runs with \<^verbatim>\<open>created=True\<close>.
\<close>

definition Review_insert :: "nat \<Rightarrow> review \<Rightarrow> database \<Rightarrow> error + (review \<times> database)" where
  "Review_insert k self db =
     (let self' = self\<lparr>review_pk := Some k, created_at := clock db\<rparr> in
      if map_of (places db) (review_place self') = None then Inl IntegrityError
      else if violates_one_review_per_user_per_place k self' (reviews db) then Inl IntegrityError
      else
        (case award_points_for_review self' True
                (db\<lparr>reviews := AList.update k self' (reviews db),
                    review_seq := max (review_seq db) (Suc k)\<rparr>) of
           Inl e \<Rightarrow> Inl e
         | Inr db' \<Rightarrow> Inr (self', db')))"

text \<open>
  \<^verbatim>\<open>Review.save\<close> is Django's \<^verbatim>\<open>Model.save\<close>. An update checks the
  uniqueness constraint when it writes one of the constraint's columns; its post-save
  handler runs with \<^verbatim>\<open>created=False\<close>.
\<close>

definition Review_save ::
  "review \<Rightarrow> review_field list option \<Rightarrow> database \<Rightarrow> error + (review \<times> database)" where
  "Review_save self update_fields db =
     (if update_fields = Some [] then Inr (self, db)
      else case review_pk self of
        None \<Rightarrow>
          (case update_fields of
             Some fs \<Rightarrow> Inl ValueError
           | None \<Rightarrow>
               (if map_of (reviews db) (review_seq db) \<noteq> None then Inl IntegrityError
                else Review_insert (review_seq db) self db))
      | Some k \<Rightarrow>
          (case map_of (reviews db) k of
             None \<Rightarrow>
               (case update_fields of
                  Some fs \<Rightarrow> Inl DatabaseError
                | None \<Rightarrow> Review_insert k self db)
           | Some row \<Rightarrow>
               (let new_row = (case update_fields of
                                 None \<Rightarrow> self
                               | Some fs \<Rightarrow> write_review_fields fs self row);
                    checked = (case update_fields of
                                 None \<Rightarrow> True
                               | Some fs \<Rightarrow> RF_place \<in> set fs \<or> RF_user \<in> set fs \<or>
                                           RF_is_archived \<in> set fs)
                in if update_fields = None \<and> map_of (places db) (review_place new_row) = None
                   then Inl IntegrityError
                   else if checked \<and> violates_one_review_per_user_per_place k new_row (reviews db)
                   then Inl IntegrityError
                   else
                     (case award_points_for_review self False
                             (db\<lparr>reviews := AList.update k new_row (reviews db)\<rparr>) of
                        Inl e \<Rightarrow> Inl e
                      | Inr db' \<Rightarrow> Inr (self, db')))))"

section \<open>Review admin actions (reviews/admin.py)\<close>

definition load_reviews :: "(review \<Rightarrow> bool) \<Rightarrow> nat list \<Rightarrow> database \<Rightarrow> review list" where
  "load_reviews cond queryset db =
     List.map_filter
       (\<lambda>k. case map_of (reviews db) k of
               None \<Rightarrow> None
             | Some row \<Rightarrow> if cond row then Some (row\<lparr>review_pk := Some k\<rparr>) else None)
       queryset"

text \<open>\<^verbatim>\<open>review.reports.filter(status=PENDING).update(status=s)\<close>.\<close>

definition update_pending_reports :: "review \<Rightarrow> ReportStatus \<Rightarrow> database \<Rightarrow> database" where
  "update_pending_reports rv s db =
     db\<lparr>reports :=
          map (\<lambda>rp. if Some (report_review rp) = review_pk rv \<and> status rp = REPORT_PENDING
                     then rp\<lparr>status := s\<rparr> else rp)
            (reports db)\<rparr>"

text \<open>
  The penalty branch of \<^verbatim>\<open>uphold_reported_reviews\<close> for the author \<open>u\<close>: one more
  upheld report, thirty points less but not below zero, and the restriction from three
  upheld reports on.
\<close>

definition apply_penalty :: "user_id \<Rightarrow> database \<Rightarrow> error + database" where
  "apply_penalty u db =
     (case Contribution_get_or_create u db of
        (contribution, db1) \<Rightarrow>
          (let c1 = contribution\<lparr>upheld_reports_count := upheld_reports_count contribution + 1\<rparr>;
               c2 = c1\<lparr>points := max 0 (points c1 - 30)\<rparr>;
               c3 = (if upheld_reports_count c2 \<ge> 3
                     then c2\<lparr>review_restriction_active := True\<rparr> else c2)
           in Contribution_save u c3
                [CF_upheld_reports_count, CF_points, CF_review_restriction_active] db1))"

text \<open>The body of the loop of \<^verbatim>\<open>uphold_reported_reviews\<close> for one loaded review.\<close>

definition uphold_review :: "request_user \<Rightarrow> review \<Rightarrow> database \<Rightarrow> error + database" where
  "uphold_review ru rv db =
     (let db1 = update_pending_reports rv UPHELD db;
          rv1 = rv\<lparr>review_is_approved := False, reported := False\<rparr>
      in case (if review_user rv1 \<noteq> None \<and> \<not> moderation_penalty_applied rv1
               then (case apply_penalty (the (review_user rv1)) db1 of
                       Inl e \<Rightarrow> Inl e
                     | Inr db2 \<Rightarrow> Inr (rv1\<lparr>moderation_penalty_applied := True\<rparr>, db2))
               else Inr (rv1, db1)) of
           Inl e \<Rightarrow> Inl e
         | Inr (rv2, db2) \<Rightarrow>
             (case Review_save rv2
                     (Some [RF_is_approved, RF_reported, RF_moderation_penalty_applied]) db2 of
                Inl e \<Rightarrow> Inl e
              | Inr (rv3, db3) \<Rightarrow>
                  Inr (log_moderation_action ru REVIEW_UPHELD ReviewContent (review_pk rv3)
                         ''Upheld reported review in admin.'' db3)))"

fun uphold_loop :: "request_user \<Rightarrow> review list \<Rightarrow> database \<Rightarrow> error + database" where
  "uphold_loop ru [] db = Inr db"
| "uphold_loop ru (rv # rest) db =
     (case uphold_review ru rv db of
        Inl e \<Rightarrow> Inl e
      | Inr db' \<Rightarrow> uphold_loop ru rest db')"

definition uphold_reported_reviews ::
  "request_user \<Rightarrow> nat list \<Rightarrow> database \<Rightarrow> error + database" where
  "uphold_reported_reviews ru queryset db =
     uphold_loop ru (load_reviews (\<lambda>r. reported r \<and> \<not> review_is_archived r) queryset db) db"

definition dismiss_review :: "request_user \<Rightarrow> review \<Rightarrow> database \<Rightarrow> error + database" where
  "dismiss_review ru rv db =
     (case Review_save (rv\<lparr>reported := False\<rparr>) (Some [RF_reported])
             (update_pending_reports rv DISMISSED db) of
        Inl e \<Rightarrow> Inl e
      | Inr (rv', db') \<Rightarrow>
          Inr (log_moderation_action ru REVIEW_DISMISSED ReviewContent (review_pk rv')
                 ''Dismissed reported review in admin.'' db'))"

fun dismiss_loop :: "request_user \<Rightarrow> review list \<Rightarrow> database \<Rightarrow> error + database" where
  "dismiss_loop ru [] db = Inr db"
| "dismiss_loop ru (rv # rest) db =
     (case dismiss_review ru rv db of
        Inl e \<Rightarrow> Inl e
      | Inr db' \<Rightarrow> dismiss_loop ru rest db')"

definition dismiss_reported_reviews ::
  "request_user \<Rightarrow> nat list \<Rightarrow> database \<Rightarrow> error + database" where
  "dismiss_reported_reviews ru queryset db =
     dismiss_loop ru (load_reviews (\<lambda>r. reported r \<and> \<not> review_is_archived r) queryset db) db"

definition archive_review ::
  "request_user \<Rightarrow> datetime \<Rightarrow> string \<Rightarrow> review \<Rightarrow> database \<Rightarrow> error + database" where
  "archive_review ru now note rv db =
     (case assign_user ru of
        Inl e \<Rightarrow> Inl e
      | Inr by \<Rightarrow>
          (case Review_save
                  (rv\<lparr>review_is_archived := True, review_archived_at := Some now,
                      review_archived_by := by, review_is_approved := False, reported := False\<rparr>)
                  (Some [RF_is_archived, RF_archived_at, RF_archived_by, RF_is_approved,
                         RF_reported]) db of
             Inl e \<Rightarrow> Inl e
           | Inr (rv', db') \<Rightarrow>
               Inr (log_moderation_action ru REVIEW_ARCHIVED ReviewContent (review_pk rv')
                      note db')))"

fun archive_reviews_loop ::
  "request_user \<Rightarrow> datetime \<Rightarrow> review list \<Rightarrow> database \<Rightarrow> error + database" where
  "archive_reviews_loop ru now [] db = Inr db"
| "archive_reviews_loop ru now (rv # rest) db =
     (case archive_review ru now ''Archived review via admin.'' rv db of
        Inl e \<Rightarrow> Inl e
      | Inr db' \<Rightarrow> archive_reviews_loop ru now rest db')"

definition archive_reviews :: "request_user \<Rightarrow> nat list \<Rightarrow> database \<Rightarrow> error + database" where
  "archive_reviews ru queryset db =
     archive_reviews_loop ru (clock db)
       (load_reviews (\<lambda>r. \<not> review_is_archived r) queryset db) db"

definition restore_review :: "request_user \<Rightarrow> review \<Rightarrow> database \<Rightarrow> error + database" where
  "restore_review ru rv db =
     (case Review_save
             (rv\<lparr>review_is_archived := False, review_archived_at := None,
                 review_archived_by := None\<rparr>)
             (Some [RF_is_archived, RF_archived_at, RF_archived_by]) db of
        Inl e \<Rightarrow> Inl e
      | Inr (rv', db') \<Rightarrow>
          Inr (log_moderation_action ru REVIEW_RESTORED ReviewContent (review_pk rv')
                 ''Restored archived review via admin.'' db'))"

fun restore_reviews_loop :: "request_user \<Rightarrow> review list \<Rightarrow> database \<Rightarrow> error + database" where
  "restore_reviews_loop ru [] db = Inr db"
| "restore_reviews_loop ru (rv # rest) db =
     (case restore_review ru rv db of
        Inl e \<Rightarrow> Inl e
      | Inr db' \<Rightarrow> restore_reviews_loop ru rest db')"

definition restore_reviews :: "request_user \<Rightarrow> nat list \<Rightarrow> database \<Rightarrow> error + database" where
  "restore_reviews ru queryset db =
     restore_reviews_loop ru (load_reviews (\<lambda>r. review_is_archived r) queryset db) db"

definition Review_delete_model :: "request_user \<Rightarrow> review \<Rightarrow> database \<Rightarrow> error + database" where
  "Review_delete_model ru obj db =
     archive_review ru (clock db) ''Archived via single delete in admin.'' obj db"

section \<open>Reporting a review (reviews/views.py)\<close>

text \<open>
  \<^verbatim>\<open>ReportReviewView.post\<close>, for a logged-in user (the view redirects the anonymous
  user to the login page). A missing or archived review (404), a rate-limited request, a
  report on one's own review and a second report by the same user change nothing.
\<close>

definition ReportReviewView_post ::
  "request_user \<Rightarrow> nat \<Rightarrow> string \<Rightarrow> bool \<Rightarrow> database \<Rightarrow> error + database" where
  "ReportReviewView_post ru review_id the_reason limited db =
     (case ru of
        AnonymousUser \<Rightarrow> Inr db
      | User u \<Rightarrow>
          (case load_reviews (\<lambda>r. \<not> review_is_archived r) [review_id] db of
             [] \<Rightarrow> Inr db
           | rv # _ \<Rightarrow>
               if limited then Inr db
               else if review_user rv = Some u then Inr db
               else if list_ex (\<lambda>rp. report_review rp = review_id \<and> reporter rp = u) (reports db)
               then Inr db
               else
                 (let report = \<lparr>report_review = review_id, reporter = u,
                                 reason = take 255 the_reason, status = REPORT_PENDING\<rparr>;
                      db1 = db\<lparr>reports := reports db @ [report]\<rparr>
                  in case Review_save (rv\<lparr>reported := True, report_reason := reason report\<rparr>)
                            (Some [RF_reported, RF_report_reason]) db1 of
                       Inl e \<Rightarrow> Inl e
                     | Inr (rv', db') \<Rightarrow> Inr db')))"

section \<open>Report admin actions (reviews/admin.py)\<close>

text \<open>
  \<^verbatim>\<open>mark_upheld\<close> and \<^verbatim>\<open>mark_dismissed\<close> of \<^verbatim>\<open>ReviewReportAdmin\<close>:
  \<^verbatim>\<open>queryset.update(status=...)\<close>. A report is selected by its position in the table.
\<close>

definition mark_upheld :: "nat list \<Rightarrow> database \<Rightarrow> database" where
  "mark_upheld queryset db =
     db\<lparr>reports :=
          map (\<lambda>(i, rp). if i \<in> set queryset then rp\<lparr>status := UPHELD\<rparr> else rp)
            (enumerate 0 (reports db))\<rparr>"

definition mark_dismissed :: "nat list \<Rightarrow> database \<Rightarrow> database" where
  "mark_dismissed queryset db =
     db\<lparr>reports :=
          map (\<lambda>(i, rp). if i \<in> set queryset then rp\<lparr>status := DISMISSED\<rparr> else rp)
            (enumerate 0 (reports db))\<rparr>"

section \<open>The operations of the subsystem\<close>

text \<open>
  Every way the repository writes places, reviews, reports, the moderation log or the
  ledger: the creation of a user (whose post-save handler creates the ledger row with
  \<^verbatim>\<open>get_or_create\<close>; the review views call the same \<^verbatim>\<open>get_or_create\<close> for the
  user who posts, and a later save of a user changes nothing), a full save of a place or a
  review (the submission views, the admin forms and the ORM's \<^verbatim>\<open>create\<close>), the
  opening-hours form, the report view, and the admin actions on places, reviews and
  reports.
\<close>

datatype operation =
    Op_create_user user_id
  | Op_set_clock datetime
  | Op_Place_save place
  | Op_opening_hours_save nat
  | Op_approve_places request_user "nat list"
  | Op_reject_places request_user "nat list"
  | Op_archive_places request_user "nat list"
  | Op_restore_places request_user "nat list"
  | Op_Place_delete_model request_user nat
  | Op_Review_save review
  | Op_report_review request_user nat string bool
  | Op_uphold_reported_reviews request_user "nat list"
  | Op_dismiss_reported_reviews request_user "nat list"
  | Op_archive_reviews request_user "nat list"
  | Op_restore_reviews request_user "nat list"
  | Op_Review_delete_model request_user nat
  | Op_mark_upheld "nat list"
  | Op_mark_dismissed "nat list"

fun run_op :: "operation \<Rightarrow> database \<Rightarrow> error + database" where
  "run_op (Op_create_user u) db = Inr (create_contribution u True db)"
| "run_op (Op_set_clock t) db = Inr (db\<lparr>clock := t\<rparr>)"
| "run_op (Op_Place_save p) db = map_sum id snd (Place_save p None db)"
| "run_op (Op_opening_hours_save k) db =
     (case load_places (\<lambda>p. True) [k] db of
        [] \<Rightarrow> Inr db
      | p # _ \<Rightarrow> map_sum id snd (opening_hours_save p db))"
| "run_op (Op_approve_places ru qs) db = approve_places ru qs db"
| "run_op (Op_reject_places ru qs) db = reject_places ru qs db"
| "run_op (Op_archive_places ru qs) db = archive_places ru qs db"
| "run_op (Op_restore_places ru qs) db = restore_places ru qs db"
| "run_op (Op_Place_delete_model ru k) db =
     (case load_places (\<lambda>p. True) [k] db of
        [] \<Rightarrow> Inr db
      | p # _ \<Rightarrow> Place_delete_model ru p db)"
| "run_op (Op_Review_save r) db = map_sum id snd (Review_save r None db)"
| "run_op (Op_report_review ru k txt limited) db = ReportReviewView_post ru k txt limited db"
| "run_op (Op_uphold_reported_reviews ru qs) db = uphold_reported_reviews ru qs db"
| "run_op (Op_dismiss_reported_reviews ru qs) db = dismiss_reported_reviews ru qs db"
| "run_op (Op_archive_reviews ru qs) db = archive_reviews ru qs db"
| "run_op (Op_restore_reviews ru qs) db = restore_reviews ru qs db"
| "run_op (Op_Review_delete_model ru k) db =
     (case load_reviews (\<lambda>r. True) [k] db of
        [] \<Rightarrow> Inr db
      | r # _ \<Rightarrow> Review_delete_model ru r db)"
| "run_op (Op_mark_upheld qs) db = Inr (mark_upheld qs db)"
| "run_op (Op_mark_dismissed qs) db = Inr (mark_dismissed qs db)"

text \<open>A sequence of operations; an exception ends it.\<close>

fun run_ops :: "operation list \<Rightarrow> database \<Rightarrow> error + database" where
  "run_ops [] db = Inr db"
| "run_ops (op # ops) db =
     (case run_op op db of
        Inl e \<Rightarrow> Inl e
      | Inr db' \<Rightarrow> run_ops ops db')"

section \<open>Review spam checks (reviews/spam.py)\<close>

text \<open>
  Texts are strings of characters with code points below 256. \<^verbatim>\<open>\s\<close> in a pattern
  on \<^verbatim>\<open>str\<close>, and \<^verbatim>\<open>str.strip\<close>, take the characters of \<^verbatim>\<open>str.isspace\<close>:
  tab to carriage return, the four separators \<open>0x1C\<close> to \<open>0x1F\<close>, the space, \<open>0x85\<close>
  and the no-break space.
\<close>

definition is_space :: "char \<Rightarrow> bool" where
  "is_space c =
     (let n = (of_char c :: nat)
      in (9 \<le> n \<and> n \<le> 13) \<or> (28 \<le> n \<and> n \<le> 32) \<or> n = 133 \<or> n = 160)"

text \<open>
  \<^verbatim>\<open>\w\<close>: the alphanumeric characters and the underscore. Below 256 these are the
  ASCII digits and letters, the underscore, the letters of Latin-1 (all of \<open>0xC0\<close> to
  \<open>0xFF\<close> but the multiplication and division signs), the ordinal indicators, the micro
  sign, the superscript digits and the three fractions.
\<close>

definition is_word :: "char \<Rightarrow> bool" where
  "is_word c =
     (let n = (of_char c :: nat)
      in (48 \<le> n \<and> n \<le> 57) \<or> (65 \<le> n \<and> n \<le> 90) \<or> n = 95 \<or> (97 \<le> n \<and> n \<le> 122) \<or>
         n = 170 \<or> n = 178 \<or> n = 179 \<or> n = 181 \<or> n = 185 \<or> n = 186 \<or>
         (188 \<le> n \<and> n \<le> 190) \<or> (192 \<le> n \<and> n \<le> 214) \<or> (216 \<le> n \<and> n \<le> 246) \<or>
         (248 \<le> n \<and> n \<le> 255))"

text \<open>\<^verbatim>\<open>str.lower\<close>, one character at a time: the ASCII capitals and the capitals of
  Latin-1 move up by 32.\<close>

definition lower_char :: "char \<Rightarrow> char" where
  "lower_char c =
     (let n = (of_char c :: nat)
      in if (65 \<le> n \<and> n \<le> 90) \<or> (192 \<le> n \<and> n \<le> 214) \<or> (216 \<le> n \<and> n \<le> 222)
         then char_of (n + 32) else c)"

definition lower :: "string \<Rightarrow> string" where
  "lower s = map lower_char s"

text \<open>\<^verbatim>\<open>re.sub(r"[^\w\s]", "", s)\<close>: drop what is neither a word character nor
  whitespace.\<close>

definition remove_punctuation :: "string \<Rightarrow> string" where
  "remove_punctuation s = filter (\<lambda>c. is_word c \<or> is_space c) s"

text \<open>\<^verbatim>\<open>re.sub(r"\s+", " ", s)\<close>: every maximal run of whitespace becomes one space.
  The flag tells that the previous character was whitespace.\<close>

fun collapse_whitespace_from :: "bool \<Rightarrow> string \<Rightarrow> string" where
  "collapse_whitespace_from in_run [] = []"
| "collapse_whitespace_from in_run (c # cs) =
     (if is_space c
      then (if in_run then collapse_whitespace_from True cs
            else CHR '' '' # collapse_whitespace_from True cs)
      else c # collapse_whitespace_from False cs)"

definition collapse_whitespace :: "string \<Rightarrow> string" where
  "collapse_whitespace s = collapse_whitespace_from False s"

definition strip :: "string \<Rightarrow> string" where
  "strip s = rev (dropWhile is_space (rev (dropWhile is_space s)))"

text \<open>\<^verbatim>\<open>normalize_text\<close>; on a string \<^verbatim>\<open>text or ""\<close> is the string.\<close>

definition normalize_text :: "string \<Rightarrow> string" where
  "normalize_text text = strip (collapse_whitespace (remove_punctuation (lower text)))"

text \<open>The lookup \<^verbatim>\<open>text__iexact\<close>: equality up to the case of letters.\<close>

definition iexact :: "string \<Rightarrow> string \<Rightarrow> bool" where
  "iexact stored given = (lower stored = lower given)"

text \<open>
  \<^verbatim>\<open>Review.objects.filter(place=place, is_archived=False).order_by("-created_at")\<close>
  \<^verbatim>\<open>.values_list("text", flat=True)[:50]\<close>: the texts of the fifty most recent reviews of
  the place that are not archived (reviews created at the same instant in the order of
  the table).
\<close>

definition recent_texts :: "database \<Rightarrow> nat \<Rightarrow> string list" where
  "recent_texts db place =
     map review_text
       (take 50
          (sort_key (\<lambda>r. - int (created_at r))
             (filter (\<lambda>r. review_place r = place \<and> \<not> review_is_archived r)
                (map snd (reviews db)))))"

text \<open>
  The loop over the recent texts. \<open>ratio\<close> stands for the standard library's
  \<^verbatim>\<open>SequenceMatcher(None, a, b).ratio()\<close>, read as a real number.
\<close>

fun similar_to_any :: "(string \<Rightarrow> string \<Rightarrow> real) \<Rightarrow> string \<Rightarrow> string list \<Rightarrow> bool" where
  "similar_to_any ratio candidate [] = False"
| "similar_to_any ratio candidate (existing # rest) =
     (let existing_normalized = normalize_text existing
      in if existing_normalized = [] then similar_to_any ratio candidate rest
         else
           let similarity = ratio candidate existing_normalized
           in if length candidate \<ge> 25 \<and> length existing_normalized \<ge> 25 \<and>
                 similarity \<ge> 85 / 100
              then True
              else similar_to_any ratio candidate rest)"

text \<open>\<^verbatim>\<open>is_duplicate_or_similar_review\<close>; the place is given by its primary key.\<close>

definition is_duplicate_or_similar_review ::
  "(string \<Rightarrow> string \<Rightarrow> real) \<Rightarrow> database \<Rightarrow> nat \<Rightarrow> string \<Rightarrow> bool" where
  "is_duplicate_or_similar_review ratio db place text =
     (let candidate = normalize_text text
      in if candidate = [] then False
         else if list_ex (\<lambda>r. review_place r = place \<and> iexact (review_text r) text \<and>
                               \<not> review_is_archived r) (map snd (reviews db))
         then True
         else similar_to_any ratio candidate (recent_texts db place))"

section \<open>Nearby places (places/views.py)\<close>











section \<open>Geocoding lookup (places/utils.py)\<close>

text \<open>
  The values \<^verbatim>\<open>response.json()\<close> can return: \<^verbatim>\<open>None\<close>, booleans, numbers,
  strings, lists, and dictionaries with string keys (a dictionary is the list of its
  items, one per key).
\<close>

datatype py_value =
    PyNone
  | PyBool bool
  | PyInt int
  | PyFloat real
  | PyStr string
  | PyList "py_value list"
  | PyDict "(string \<times> py_value) list"

text \<open>
  What \<^verbatim>\<open>requests.get\<close> hands back: the status code, and the body as
  \<^verbatim>\<open>response.json()\<close> parses it, \<open>None\<close> when the body is not JSON (the call then
  raises JSONDecodeError).
\<close>

record response =
  status_code :: int
  json :: "py_value option"

text \<open>\<^verbatim>\<open>value != n\<close> for an integer literal \<open>n\<close>: numbers compare by value, a boolean
  as 0 or 1, and every other value differs from a number.\<close>

fun differs_from_int :: "py_value \<Rightarrow> int \<Rightarrow> bool" where
  "differs_from_int (PyInt i) n = (i \<noteq> n)"
| "differs_from_int (PyFloat x) n = (x \<noteq> of_int n)"
| "differs_from_int (PyBool b) n = ((if b then 1 else 0) \<noteq> n)"
| "differs_from_int v n = True"

text \<open>Truthiness, as in \<^verbatim>\<open>if not result\<close>.\<close>

fun truthy :: "py_value \<Rightarrow> bool" where
  "truthy PyNone = False"
| "truthy (PyBool b) = b"
| "truthy (PyInt i) = (i \<noteq> 0)"
| "truthy (PyFloat x) = (x \<noteq> 0)"
| "truthy (PyStr s) = (s \<noteq> [])"
| "truthy (PyList vs) = (vs \<noteq> [])"
| "truthy (PyDict items) = (items \<noteq> [])"

text \<open>\<^verbatim>\<open>data.get(key)\<close>: only a dictionary has the method; a missing key gives
  \<^verbatim>\<open>None\<close>.\<close>

fun py_get :: "py_value \<Rightarrow> string \<Rightarrow> error + py_value" where
  "py_get (PyDict items) key =
     (case map_of items key of None \<Rightarrow> Inr PyNone | Some v \<Rightarrow> Inr v)"
| "py_get v key = Inl AttributeError"

text \<open>\<^verbatim>\<open>result[key]\<close> with a string key: a dictionary raises KeyError for a missing
  key; strings and lists want integer indices, and the other values are not
  subscriptable (TypeError).\<close>

fun py_getitem :: "py_value \<Rightarrow> string \<Rightarrow> error + py_value" where
  "py_getitem (PyDict items) key =
     (case map_of items key of None \<Rightarrow> Inl KeyError | Some v \<Rightarrow> Inr v)"
| "py_getitem v key = Inl TypeError"

text \<open>
  \<^verbatim>\<open>geocode_location\<close>, as a function of the outcome of
  \<^verbatim>\<open>requests.get(url, timeout=5)\<close>: an exception of the call (a timeout, a refused
  connection) is not caught and leaves the function. The pair \<open>(PyNone, PyNone)\<close> is
  \<^verbatim>\<open>(None, None)\<close>.
\<close>

definition geocode_location :: "error + response \<Rightarrow> error + (py_value \<times> py_value)" where
  "geocode_location outcome =
     (case outcome of
        Inl e \<Rightarrow> Inl e
      | Inr response \<Rightarrow>
          if status_code response \<noteq> 200 then Inr (PyNone, PyNone)
          else case json response of
            None \<Rightarrow> Inl JSONDecodeError
          | Some data \<Rightarrow>
              (case py_get data ''status'' of
                 Inl e \<Rightarrow> Inl e
               | Inr st \<Rightarrow>
                   if differs_from_int st 200 then Inr (PyNone, PyNone)
                   else case py_get data ''result'' of
                     Inl e \<Rightarrow> Inl e
                   | Inr result \<Rightarrow>
                       if \<not> truthy result then Inr (PyNone, PyNone)
                       else case py_getitem result ''latitude'' of
                         Inl e \<Rightarrow> Inl e
                       | Inr lat \<Rightarrow>
                           (case py_getitem result ''longitude'' of
                              Inl e \<Rightarrow> Inl e
                            | Inr lon \<Rightarrow> Inr (lat, lon))))"

section \<open>Example data (tests/conftest.py, tests/unit/test_admin_actions.py)\<close>

text \<open>The fixture \<^verbatim>\<open>approved_place\<close> as \<^verbatim>\<open>Place.objects.create\<close> builds it before
  saving: no primary key yet, status approved, the flag at its default, created by user 1.\<close>

definition harbor_walk :: place where
  "harbor_walk =
     \<lparr>pk = None, model = Place, moderation_status = APPROVED, is_approved = False,
      is_archived = False, archived_at = None, archived_by = None, created_by = Some 1,
      latitude = Some (501 / 10), longitude = Some (- (51 / 10))\<rparr>"



text \<open>A guest review of place 1 made of punctuation only.\<close>

definition punctuation_review :: review where
  "punctuation_review =
     \<lparr>review_pk = Some 1, review_place = 1, review_user = None, review_text = ''!!!'',
      rating = 5, review_is_approved = True, reported = False, report_reason = [],
      moderation_penalty_applied = False, review_is_archived = False,
      review_archived_at = None, review_archived_by = None, created_at = 0\<rparr>"






section \<open>Predicates of the specification\<close>

text \<open>The ledger row of a user as \<^verbatim>\<open>get_or_create\<close> returns it: the stored row, or the defaults.\<close>

definition ledger_row :: "database \<Rightarrow> user_id \<Rightarrow> contribution" where
  "ledger_row db u = (case contributions db u of Some c \<Rightarrow> c | None \<Rightarrow> new_contribution)"

text \<open>The moderation status stored for the row with the instance's primary key.\<close>

definition stored_status :: "place \<Rightarrow> database \<Rightarrow> ModerationStatus option" where
  "stored_status p db =
     (case pk p of None \<Rightarrow> None | Some k \<Rightarrow> map_option moderation_status (map_of (places db) k))"

text \<open>A row whose denormalised flag agrees with its status.\<close>

definition in_sync :: "place \<Rightarrow> bool" where
  "in_sync row = (is_approved row = (moderation_status row = APPROVED))"

text \<open>Every stored place is in sync.\<close>

definition places_in_sync :: "database \<Rightarrow> bool" where
  "places_in_sync db = list_all (\<lambda>(k, row). in_sync row) (places db)"

text \<open>The saves that keep a stored row in sync: a full save; a save that writes both
  columns or neither; a save that leaves the status column alone, of an instance whose status is
  the stored one.\<close>

definition keeps_sync :: "place_field list option \<Rightarrow> place \<Rightarrow> database \<Rightarrow> bool" where
  "keeps_sync uf p db =
     (case uf of
        None \<Rightarrow> True
      | Some fs \<Rightarrow>
          (PF_moderation_status \<in> set fs \<and> PF_is_approved \<in> set fs) \<or>
          (PF_moderation_status \<notin> set fs \<and> PF_is_approved \<notin> set fs) \<or>
          (PF_moderation_status \<notin> set fs \<and> stored_status p db = Some (moderation_status p)))"

text \<open>The user has a ledger row with \<^verbatim>\<open>review_restriction_active\<close> set.\<close>

definition restricted :: "database \<Rightarrow> user_id \<Rightarrow> bool" where
  "restricted db u =
     (case contributions db u of None \<Rightarrow> False | Some c \<Rightarrow> review_restriction_active c)"

text \<open>Every ledger row, the default row of a user without one included, holds a points
  total at or above zero.\<close>

definition points_nonneg :: "database \<Rightarrow> bool" where
  "points_nonneg db = (\<forall>u. 0 \<le> points (ledger_row db u))"

section \<open>Properties of the contribution levels\<close>

lemma level_name_in_LEVELS: "level_name_in LEVELS P = Some (level_name P)"
  by (simp add: level_name_in_def level_name_def LEVELS_def)

lemma level_name_cases:
  "level_name P =
     (if P < 50 then ''New Explorer''
      else if P < 120 then ''Local Contributor''
      else if P < 250 then ''Trusted Guide''
      else ''Community Champion'')"
  by (simp add: level_name_def LEVELS_def)

lemma level_rank_cases:
  "level_rank (level_name P) =
     (if P < 50 then 0 else if P < 120 then 1 else if P < 250 then 2 else 3)"
  by (simp add: level_name_cases level_rank_def LEVELS_def)

section \<open>Properties of saves and moderation actions\<close>



lemma model_connected: "model p \<in> set connected_senders"
  by (cases "model p") (simp_all add: connected_senders_def)

lemma set_update_subset: "set (AList.update k v al) \<subseteq> insert (k, v) (set al)"
  by (induction al) auto

lemma award_total:
  "award_points_if_newly_approved i prev db =
     Inr (if prev \<noteq> Some APPROVED \<and> moderation_status i = APPROVED \<and> created_by i \<noteq> None
          then db\<lparr>contributions := (contributions db)(the (created_by i) \<mapsto>
                 (ledger_row db (the (created_by i)))
                   \<lparr>places_added := places_added (ledger_row db (the (created_by i))) + 1,
                    points := points (ledger_row db (the (created_by i))) + 50\<rparr>)\<rparr>
          else db)"
  by (auto simp: award_points_if_newly_approved_def Contribution_get_or_create_def
      Contribution_save_def write_contribution_fields_def ledger_row_def new_contribution_def
      split: option.splits)

lemma award_places:
  "award_points_if_newly_approved i prev db = Inr db' \<Longrightarrow>
     places db' = places db \<and> place_seq db' = place_seq db \<and> reviews db' = reviews db \<and>
     review_seq db' = review_seq db \<and> reports db' = reports db \<and>
     moderation_log db' = moderation_log db \<and> clock db' = clock db"
  by (auto simp: award_total split: if_splits)

lemma Place_save_instance:
  "Place_save p uf db = Inr (p', db') \<Longrightarrow>
     is_approved p' = (moderation_status p = APPROVED) \<and> moderation_status p' = moderation_status p
     \<and> created_by p' = created_by p \<and> is_archived p' = is_archived p"
  by (auto simp: Place_save_def Place_save_table_def Let_def award_total
      split: if_splits sum.splits option.splits)

lemma Place_save_contributions:
  assumes "Place_save p uf db = Inr (p', db')"
  shows "contributions db' =
     (if uf \<noteq> Some [] \<and> set_previous_status p db \<noteq> Some APPROVED
          \<and> moderation_status p = APPROVED \<and> created_by p \<noteq> None
      then (contributions db)(the (created_by p) \<mapsto>
                 (ledger_row db (the (created_by p)))
                   \<lparr>places_added := places_added (ledger_row db (the (created_by p))) + 1,
                    points := points (ledger_row db (the (created_by p))) + 50\<rparr>)
      else contributions db)"
  using assms model_connected[of p]
  by (auto simp: Place_save_def Place_save_table_def Let_def award_total set_previous_status_def ledger_row_def
      split: if_splits sum.splits option.splits)

lemma list_all_update:
  "list_all P al \<Longrightarrow> P (k, v) \<Longrightarrow> list_all P (AList.update k v al)"
  using set_update_subset[of k v al] by (auto simp: list_all_iff)

lemma in_sync_lookup:
  "places_in_sync db \<Longrightarrow> map_of (places db) k = Some row \<Longrightarrow> in_sync row"
  by (auto simp: places_in_sync_def list_all_iff dest: map_of_SomeD)

lemma Place_save_places:
  assumes "Place_save p uf db = Inr (p', db')"
  shows "places db' =
     (if uf = Some [] then places db
      else case pk p of
        None \<Rightarrow> AList.update (place_seq db)
                  (p\<lparr>is_approved := (moderation_status p = APPROVED), pk := Some (place_seq db)\<rparr>)
                  (places db)
      | Some k \<Rightarrow>
          AList.update k
            (case (uf, map_of (places db) k) of
               (Some fs, Some row) \<Rightarrow>
                  write_place_fields fs (p\<lparr>is_approved := (moderation_status p = APPROVED)\<rparr>) row
             | _ \<Rightarrow> p\<lparr>is_approved := (moderation_status p = APPROVED)\<rparr>)
            (places db))"
  using assms
  by (auto simp: Place_save_def Place_save_table_def Let_def award_total
      split: if_splits sum.splits option.splits)

lemma Place_save_frame:
  assumes "Place_save p uf db = Inr (p', db')"
  shows "reviews db' = reviews db \<and> review_seq db' = review_seq db \<and> reports db' = reports db
     \<and> moderation_log db' = moderation_log db \<and> clock db' = clock db"
  using assms
  by (auto simp: Place_save_def Place_save_table_def Let_def award_total
      split: if_splits sum.splits option.splits)

lemma in_sync_write:
  assumes "in_sync row"
    and "(PF_moderation_status \<in> set fs \<and> PF_is_approved \<in> set fs) \<or>
         (PF_moderation_status \<notin> set fs \<and> PF_is_approved \<notin> set fs) \<or>
         (PF_moderation_status \<notin> set fs \<and> moderation_status row = moderation_status p)"
  shows "in_sync (write_place_fields fs (p\<lparr>is_approved := (moderation_status p = APPROVED)\<rparr>) row)"
  using assms by (auto simp: in_sync_def write_place_fields_def)

lemma places_in_sync_update:
  "places_in_sync db \<Longrightarrow> places db' = AList.update k v (places db) \<Longrightarrow> in_sync v \<Longrightarrow>
   places_in_sync db'"
  by (simp add: places_in_sync_def list_all_update)

lemma Place_save_sync:
  assumes "places_in_sync db" "Place_save p uf db = Inr (p', db')" "keeps_sync uf p db"
  shows "places_in_sync db'"
proof -
  let ?p1 = "p\<lparr>is_approved := (moderation_status p = APPROVED)\<rparr>"
  have p1: "in_sync ?p1" by (simp add: in_sync_def)
  note pl = Place_save_places[OF assms(2)]
  show ?thesis
  proof (cases "uf = Some []")
    case True
    with pl assms(1) show ?thesis by (simp add: places_in_sync_def)
  next
    case False
    show ?thesis
    proof (cases "pk p")
      case None
      have "in_sync (?p1\<lparr>pk := Some (place_seq db)\<rparr>)" by (simp add: in_sync_def)
      moreover have "places db' = AList.update (place_seq db) (?p1\<lparr>pk := Some (place_seq db)\<rparr>) (places db)"
        using pl False None by simp
      ultimately show ?thesis using places_in_sync_update[OF assms(1)] by blast
    next
      case (Some k)
      show ?thesis
      proof (cases "map_of (places db) k")
        case None
        have "places db' = AList.update k ?p1 (places db)"
          using pl False Some None by (simp split: option.splits)
        then show ?thesis using places_in_sync_update[OF assms(1) _ p1] by blast
      next
        case (Some row)
        have row: "in_sync row" using Some assms(1) in_sync_lookup by blast
        show ?thesis
        proof (cases uf)
          case None
          have "places db' = AList.update k ?p1 (places db)"
            using pl False \<open>pk p = Some k\<close> Some None by simp
          then show ?thesis using places_in_sync_update[OF assms(1) _ p1] by blast
        next
          case (Some fs)
          have c: "(PF_moderation_status \<in> set fs \<and> PF_is_approved \<in> set fs) \<or>
             (PF_moderation_status \<notin> set fs \<and> PF_is_approved \<notin> set fs) \<or>
             (PF_moderation_status \<notin> set fs \<and> moderation_status row = moderation_status p)"
            using assms(3) Some \<open>pk p = Some k\<close> \<open>map_of (places db) k = Some row\<close>
            by (auto simp: keeps_sync_def stored_status_def)
          have "places db' = AList.update k (write_place_fields fs ?p1 row) (places db)"
            using pl False \<open>pk p = Some k\<close> \<open>map_of (places db) k = Some row\<close> Some by simp
          then show ?thesis
            using places_in_sync_update[OF assms(1) _ in_sync_write[OF row c]] by blast
        qed
      qed
    qed
  qed
qed

lemma Place_save_stored_status:
  assumes "Place_save p (Some fs) db = Inr (p', db')" "PF_moderation_status \<notin> set fs"
  shows "map_option moderation_status (map_of (places db') k) =
         map_option moderation_status (map_of (places db) k)"
proof (cases "fs = []")
  case True
  with assms show ?thesis by (simp add: Place_save_def Let_def)
next
  case False
  from assms(1) False obtain j row where j: "pk p = Some j" "map_of (places db) j = Some row"
    by (auto simp: Place_save_def Place_save_table_def Let_def split: option.splits if_splits)
  have "places db' = AList.update j
      (write_place_fields fs (p\<lparr>is_approved := (moderation_status p = APPROVED)\<rparr>) row) (places db)"
    using Place_save_places[OF assms(1)] False j by simp
  then show ?thesis using j assms(2)
    by (simp add: update_conv' write_place_fields_def)
qed

lemma log_frame [simp]:
  "places (log_moderation_action ru a ct oid n db) = places db"
  "contributions (log_moderation_action ru a ct oid n db) = contributions db"
  "reviews (log_moderation_action ru a ct oid n db) = reviews db"
  "reports (log_moderation_action ru a ct oid n db) = reports db"
  "clock (log_moderation_action ru a ct oid n db) = clock db"
  "place_seq (log_moderation_action ru a ct oid n db) = place_seq db"
  "review_seq (log_moderation_action ru a ct oid n db) = review_seq db"
  by (simp_all add: log_moderation_action_def)

lemma places_in_sync_log [simp]:
  "places_in_sync (log_moderation_action ru a ct oid n db) = places_in_sync db"
  by (simp add: places_in_sync_def)

lemma stored_status_log [simp]:
  "stored_status p (log_moderation_action ru a ct oid n db) = stored_status p db"
  by (simp add: stored_status_def split: option.splits)

lemma approve_loop_sync:
  "places_in_sync db \<Longrightarrow> approve_places_loop ru ps db = Inr db' \<Longrightarrow> places_in_sync db'"
proof (induction ps arbitrary: db)
  case Nil then show ?case by simp
next
  case (Cons p ps)
  from Cons.prems(2) obtain p1 db1 where
    s1: "Place_save (p\<lparr>moderation_status := APPROVED\<rparr>)
           (Some [PF_moderation_status, PF_is_approved]) db = Inr (p1, db1)"
    and s2: "approve_places_loop ru ps
              (log_moderation_action ru PLACE_APPROVED PlaceContent (pk p1)
                 ''Approved from Place admin action.'' db1) = Inr db'"
    by (auto split: sum.splits)
  have "places_in_sync db1"
    by (rule Place_save_sync[OF Cons.prems(1) s1]) (simp add: keeps_sync_def)
  then have "places_in_sync (log_moderation_action ru PLACE_APPROVED PlaceContent (pk p1)
                 ''Approved from Place admin action.'' db1)" by simp
  then show ?case using Cons.IH s2 by blast
qed

lemma reject_loop_sync:
  "places_in_sync db \<Longrightarrow> reject_places_loop ru ps db = Inr db' \<Longrightarrow> places_in_sync db'"
proof (induction ps arbitrary: db)
  case Nil then show ?case by simp
next
  case (Cons p ps)
  from Cons.prems(2) obtain p1 db1 where
    s1: "Place_save (p\<lparr>moderation_status := REJECTED, is_approved := False\<rparr>)
           (Some [PF_moderation_status, PF_is_approved]) db = Inr (p1, db1)"
    and s2: "reject_places_loop ru ps
              (log_moderation_action ru PLACE_REJECTED PlaceContent (pk p1)
                 ''Rejected from Place admin action.'' db1) = Inr db'"
    by (auto split: sum.splits)
  have "places_in_sync db1"
    by (rule Place_save_sync[OF Cons.prems(1) s1]) (simp add: keeps_sync_def)
  then have "places_in_sync (log_moderation_action ru PLACE_REJECTED PlaceContent (pk p1)
                 ''Rejected from Place admin action.'' db1)" by simp
  then show ?case using Cons.IH s2 by blast
qed

lemma restore_loop_sync:
  "places_in_sync db \<Longrightarrow> restore_places_loop ru ps db = Inr db' \<Longrightarrow> places_in_sync db'"
proof (induction ps arbitrary: db)
  case Nil then show ?case by simp
next
  case (Cons p ps)
  from Cons.prems(2) obtain p1 db1 where
    s1: "Place_save (p\<lparr>is_archived := False, archived_at := None, archived_by := None\<rparr>)
           (Some [PF_is_archived, PF_archived_at, PF_archived_by]) db = Inr (p1, db1)"
    and s2: "restore_places_loop ru ps
              (log_moderation_action ru PLACE_RESTORED PlaceContent (pk p1)
                 ''Restored via Place admin.'' db1) = Inr db'"
    by (auto split: sum.splits)
  have "places_in_sync db1"
    by (rule Place_save_sync[OF Cons.prems(1) s1]) (simp add: keeps_sync_def)
  then have "places_in_sync (log_moderation_action ru PLACE_RESTORED PlaceContent (pk p1)
                 ''Restored via Place admin.'' db1)" by simp
  then show ?case using Cons.IH s2 by blast
qed

lemma archive_place_cases:
  assumes "archive_place ru now note p db = Inr db'"
  obtains u p1 db1 where "ru = User u"
    "Place_save (p\<lparr>is_archived := True, archived_at := Some now, archived_by := Some u,
                     is_approved := False\<rparr>)
        (Some [PF_is_archived, PF_archived_at, PF_archived_by, PF_is_approved]) db = Inr (p1, db1)"
    "db' = log_moderation_action ru PLACE_ARCHIVED PlaceContent (pk p1) note db1"
  using assms
  by (auto simp: archive_place_def assign_user_def split: sum.splits request_user.splits)

lemma archive_place_sync:
  assumes "places_in_sync db" "archive_place ru now note p db = Inr db'"
    "stored_status p db = Some (moderation_status p)"
  shows "places_in_sync db'"
proof -
  from assms(2) obtain u p1 db1 where
    s: "Place_save (p\<lparr>is_archived := True, archived_at := Some now, archived_by := Some u,
                     is_approved := False\<rparr>)
        (Some [PF_is_archived, PF_archived_at, PF_archived_by, PF_is_approved]) db = Inr (p1, db1)"
    and d: "db' = log_moderation_action ru PLACE_ARCHIVED PlaceContent (pk p1) note db1"
    by (rule archive_place_cases)
  have "places_in_sync db1"
    by (rule Place_save_sync[OF assms(1) s])
       (use assms(3) in \<open>simp add: keeps_sync_def stored_status_def\<close>)
  then show ?thesis using d by simp
qed

lemma archive_place_stored_status:
  assumes "archive_place ru now note p db = Inr db'"
  shows "stored_status q db' = stored_status q db"
proof -
  from assms obtain u p1 db1 where
    s: "Place_save (p\<lparr>is_archived := True, archived_at := Some now, archived_by := Some u,
                     is_approved := False\<rparr>)
        (Some [PF_is_archived, PF_archived_at, PF_archived_by, PF_is_approved]) db = Inr (p1, db1)"
    and d: "db' = log_moderation_action ru PLACE_ARCHIVED PlaceContent (pk p1) note db1"
    by (rule archive_place_cases)
  have "stored_status q db1 = stored_status q db"
    using Place_save_stored_status[OF s] by (simp add: stored_status_def split: option.splits)
  then show ?thesis using d by simp
qed

lemma archive_loop_sync:
  "places_in_sync db \<Longrightarrow> archive_places_loop ru now ps db = Inr db' \<Longrightarrow>
   \<forall>p \<in> set ps. stored_status p db = Some (moderation_status p) \<Longrightarrow> places_in_sync db'"
proof (induction ps arbitrary: db)
  case Nil then show ?case by simp
next
  case (Cons p ps)
  from Cons.prems(2) obtain db1 where
    s1: "archive_place ru now ''Archived via Place admin.'' p db = Inr db1"
    and s2: "archive_places_loop ru now ps db1 = Inr db'"
    by (auto split: sum.splits)
  have "places_in_sync db1" using archive_place_sync[OF Cons.prems(1) s1] Cons.prems(3) by simp
  moreover have "\<forall>q \<in> set ps. stored_status q db1 = Some (moderation_status q)"
    using Cons.prems(3) archive_place_stored_status[OF s1] by simp
  ultimately show ?case using Cons.IH s2 by blast
qed

lemma load_places_fresh:
  "p \<in> set (load_places cond qs db) \<Longrightarrow> stored_status p db = Some (moderation_status p)"
  by (auto simp: load_places_def List.map_filter_def stored_status_def split: option.splits if_splits)



lemma restricted_log [simp]:
  "restricted (log_moderation_action ru a ct oid n db) u = restricted db u"
  by (simp add: restricted_def)

lemma award_review_total:
  "award_points_for_review i created db =
     Inr (if created \<and> review_user i \<noteq> None
          then db\<lparr>contributions := (contributions db)(the (review_user i) \<mapsto>
                 (ledger_row db (the (review_user i)))
                   \<lparr>reviews_added := reviews_added (ledger_row db (the (review_user i))) + 1,
                    points := points (ledger_row db (the (review_user i))) + 10\<rparr>)\<rparr>
          else db)"
  by (auto simp: award_points_for_review_def Contribution_get_or_create_def
      Contribution_save_def write_contribution_fields_def ledger_row_def new_contribution_def
      split: option.splits)

lemma apply_penalty_total:
  "apply_penalty u db =
     Inr (db\<lparr>contributions := (contributions db)(u \<mapsto>
            (ledger_row db u)
              \<lparr>points := max 0 (points (ledger_row db u) - 30),
               upheld_reports_count := upheld_reports_count (ledger_row db u) + 1,
               review_restriction_active :=
                 (review_restriction_active (ledger_row db u) \<or>
                  upheld_reports_count (ledger_row db u) + 1 \<ge> 3)\<rparr>)\<rparr>)"
  by (auto simp: apply_penalty_def Contribution_get_or_create_def Let_def
      Contribution_save_def write_contribution_fields_def ledger_row_def new_contribution_def
      split: option.splits)

lemma restricted_ledger_row:
  "restricted db u = review_restriction_active (ledger_row db u)"
  by (simp add: restricted_def ledger_row_def new_contribution_def split: option.splits)

lemma award_review_restricted:
  "award_points_for_review i created db = Inr db' \<Longrightarrow> restricted db' u = restricted db u"
  by (auto simp: award_review_total restricted_def ledger_row_def new_contribution_def
      split: if_splits option.splits)

lemma award_review_frame:
  "award_points_for_review i created db = Inr db' \<Longrightarrow>
     places db' = places db \<and> place_seq db' = place_seq db \<and> reviews db' = reviews db \<and>
     review_seq db' = review_seq db \<and> reports db' = reports db \<and>
     moderation_log db' = moderation_log db \<and> clock db' = clock db"
  by (auto simp: award_review_total split: if_splits)

lemma Review_insert_frame:
  assumes "Review_insert k r db = Inr (r', db')"
  shows "places db' = places db \<and> place_seq db' = place_seq db \<and> reports db' = reports db \<and>
     moderation_log db' = moderation_log db \<and> clock db' = clock db \<and>
     (\<forall>u. restricted db' u = restricted db u)"
proof -
  from assms obtain dbm where
    a: "award_points_for_review (r\<lparr>review_pk := Some k, created_at := clock db\<rparr>) True dbm = Inr db'"
    and m: "dbm = db\<lparr>reviews := AList.update k (r\<lparr>review_pk := Some k, created_at := clock db\<rparr>) (reviews db),
                    review_seq := max (review_seq db) (Suc k)\<rparr>"
    by (auto simp: Review_insert_def Let_def split: if_splits sum.splits)
  have "\<forall>u. restricted dbm u = restricted db u" using m by (simp add: restricted_def)
  then show ?thesis using award_review_frame[OF a] award_review_restricted[OF a] m by simp
qed

lemma Review_save_frame:
  assumes "Review_save r uf db = Inr (r', db')"
  shows "places db' = places db \<and> place_seq db' = place_seq db \<and> reports db' = reports db \<and>
     moderation_log db' = moderation_log db \<and> clock db' = clock db \<and>
     (\<forall>u. restricted db' u = restricted db u)"
proof (cases "uf = Some []")
  case True
  with assms show ?thesis by (simp add: Review_save_def)
next
  case False
  show ?thesis
  proof (cases "review_pk r")
    case None
    with assms False have "Review_insert (review_seq db) r db = Inr (r', db')"
      by (auto simp: Review_save_def split: option.splits if_splits)
    then show ?thesis by (rule Review_insert_frame)
  next
    case (Some k)
    show ?thesis
    proof (cases "map_of (reviews db) k")
      case None
      with assms False Some have "Review_insert k r db = Inr (r', db')"
        by (auto simp: Review_save_def split: option.splits if_splits)
      then show ?thesis by (rule Review_insert_frame)
    next
      case (Some row)
      with assms False \<open>review_pk r = Some k\<close> obtain nr where
        "award_points_for_review r False (db\<lparr>reviews := AList.update k nr (reviews db)\<rparr>) = Inr db'"
        by (auto simp: Review_save_def Let_def split: if_splits sum.splits)
      then show ?thesis by (auto simp: award_review_total restricted_def)
    qed
  qed
qed




lemma Place_save_restricted:
  assumes "Place_save p uf db = Inr (p', db')"
  shows "restricted db' u = restricted db u"
  using Place_save_contributions[OF assms]
  by (auto simp: restricted_def ledger_row_def new_contribution_def split: option.splits if_splits)

lemma update_pending_reports_frame [simp]:
  "places (update_pending_reports rv s db) = places db"
  "contributions (update_pending_reports rv s db) = contributions db"
  "reviews (update_pending_reports rv s db) = reviews db"
  "moderation_log (update_pending_reports rv s db) = moderation_log db"
  "clock (update_pending_reports rv s db) = clock db"
  by (simp_all add: update_pending_reports_def)

lemma restricted_update_pending_reports [simp]:
  "restricted (update_pending_reports rv s db) u = restricted db u"
  by (simp add: restricted_def)

lemma apply_penalty_mono:
  "apply_penalty v db = Inr db' \<Longrightarrow> restricted db u \<Longrightarrow> restricted db' u"
  by (auto simp: apply_penalty_total restricted_def ledger_row_def split: option.splits if_splits)

lemma apply_penalty_places:
  "apply_penalty v db = Inr db' \<Longrightarrow> places db' = places db"
  by (auto simp: apply_penalty_total)

lemma uphold_review_pen:
  assumes "review_user rv = Some v" "\<not> moderation_penalty_applied rv"
    "apply_penalty v (update_pending_reports rv UPHELD db) = Inr dbp"
  shows "uphold_review ru rv db =
     (case Review_save
             (rv\<lparr>review_is_approved := False, reported := False,
                 moderation_penalty_applied := True\<rparr>)
             (Some [RF_is_approved, RF_reported, RF_moderation_penalty_applied]) dbp of
        Inl e \<Rightarrow> Inl e
      | Inr (rv3, db3) \<Rightarrow>
          Inr (log_moderation_action ru REVIEW_UPHELD ReviewContent (review_pk rv3)
                 ''Upheld reported review in admin.'' db3))"
  using assms by (simp add: uphold_review_def Let_def)

lemma uphold_review_nopen:
  assumes "review_user rv = None \<or> moderation_penalty_applied rv"
  shows "uphold_review ru rv db =
     (case Review_save (rv\<lparr>review_is_approved := False, reported := False\<rparr>)
             (Some [RF_is_approved, RF_reported, RF_moderation_penalty_applied])
             (update_pending_reports rv UPHELD db) of
        Inl e \<Rightarrow> Inl e
      | Inr (rv3, db3) \<Rightarrow>
          Inr (log_moderation_action ru REVIEW_UPHELD ReviewContent (review_pk rv3)
                 ''Upheld reported review in admin.'' db3))"
  using assms by (auto simp add: uphold_review_def Let_def)

lemma uphold_review_keeps:
  assumes "uphold_review ru rv db = Inr db'"
  shows "places db' = places db \<and> (restricted db u \<longrightarrow> restricted db' u)"
proof (cases "review_user rv = None \<or> moderation_penalty_applied rv")
  case True
  from assms obtain rv3 db3 where
    sv: "Review_save (rv\<lparr>review_is_approved := False, reported := False\<rparr>)
             (Some [RF_is_approved, RF_reported, RF_moderation_penalty_applied])
             (update_pending_reports rv UPHELD db) = Inr (rv3, db3)"
    and lg: "db' = log_moderation_action ru REVIEW_UPHELD ReviewContent (review_pk rv3)
                 ''Upheld reported review in admin.'' db3"
    unfolding uphold_review_nopen[OF True] by (auto split: sum.splits)
  show ?thesis using Review_save_frame[OF sv] lg by simp
next
  case False
  then obtain v where v: "review_user rv = Some v" "\<not> moderation_penalty_applied rv" by auto
  obtain dbp where p: "apply_penalty v (update_pending_reports rv UPHELD db) = Inr dbp"
    by (simp add: apply_penalty_total)
  from assms obtain rv3 db3 where
    sv: "Review_save (rv\<lparr>review_is_approved := False, reported := False,
                 moderation_penalty_applied := True\<rparr>)
             (Some [RF_is_approved, RF_reported, RF_moderation_penalty_applied]) dbp
           = Inr (rv3, db3)"
    and lg: "db' = log_moderation_action ru REVIEW_UPHELD ReviewContent (review_pk rv3)
                 ''Upheld reported review in admin.'' db3"
    unfolding uphold_review_pen[OF v p] by (auto split: sum.splits)
  have a: "places dbp = places db \<and> (restricted db u \<longrightarrow> restricted dbp u)"
    using apply_penalty_places[OF p] apply_penalty_mono[OF p, of u] by simp
  show ?thesis using Review_save_frame[OF sv] a lg by simp
qed

lemma uphold_loop_keeps:
  "uphold_loop ru rvs db = Inr db' \<Longrightarrow>
     places db' = places db \<and> (restricted db u \<longrightarrow> restricted db' u)"
proof (induction rvs arbitrary: db)
  case Nil then show ?case by simp
next
  case (Cons rv rvs)
  from Cons.prems obtain db1 where s1: "uphold_review ru rv db = Inr db1"
    and s2: "uphold_loop ru rvs db1 = Inr db'" by (auto split: sum.splits)
  show ?case using uphold_review_keeps[OF s1, of u] Cons.IH[OF s2] by simp
qed

lemma dismiss_review_keeps:
  assumes "dismiss_review ru rv db = Inr db'"
  shows "places db' = places db \<and> restricted db' u = restricted db u"
proof -
  from assms obtain rv1 db1 where
    sv: "Review_save (rv\<lparr>reported := False\<rparr>) (Some [RF_reported])
           (update_pending_reports rv DISMISSED db) = Inr (rv1, db1)"
    and lg: "db' = log_moderation_action ru REVIEW_DISMISSED ReviewContent (review_pk rv1)
                     ''Dismissed reported review in admin.'' db1"
    by (auto simp: dismiss_review_def split: sum.splits)
  show ?thesis using Review_save_frame[OF sv] lg by simp
qed

lemma dismiss_loop_keeps:
  "dismiss_loop ru rvs db = Inr db' \<Longrightarrow>
     places db' = places db \<and> restricted db' u = restricted db u"
proof (induction rvs arbitrary: db)
  case Nil then show ?case by simp
next
  case (Cons rv rvs)
  from Cons.prems obtain db1 where s1: "dismiss_review ru rv db = Inr db1"
    and s2: "dismiss_loop ru rvs db1 = Inr db'" by (auto split: sum.splits)
  show ?case using dismiss_review_keeps[OF s1, of u] Cons.IH[OF s2] by simp
qed

lemma archive_review_keeps:
  assumes "archive_review ru now note rv db = Inr db'"
  shows "places db' = places db \<and> restricted db' u = restricted db u"
proof -
  from assms obtain aby rv1 db1 where
    sv: "Review_save
           (rv\<lparr>review_is_archived := True, review_archived_at := Some now,
               review_archived_by := aby, review_is_approved := False, reported := False\<rparr>)
           (Some [RF_is_archived, RF_archived_at, RF_archived_by, RF_is_approved, RF_reported]) db
          = Inr (rv1, db1)"
    and lg: "db' = log_moderation_action ru REVIEW_ARCHIVED ReviewContent (review_pk rv1) note db1"
    by (auto simp: archive_review_def split: sum.splits)
  show ?thesis using Review_save_frame[OF sv] lg by simp
qed

lemma archive_reviews_loop_keeps:
  "archive_reviews_loop ru now rvs db = Inr db' \<Longrightarrow>
     places db' = places db \<and> restricted db' u = restricted db u"
proof (induction rvs arbitrary: db)
  case Nil then show ?case by simp
next
  case (Cons rv rvs)
  from Cons.prems obtain db1 where
    s1: "archive_review ru now ''Archived review via admin.'' rv db = Inr db1"
    and s2: "archive_reviews_loop ru now rvs db1 = Inr db'" by (auto split: sum.splits)
  show ?case using archive_review_keeps[OF s1, of u] Cons.IH[OF s2] by simp
qed

lemma restore_review_keeps:
  assumes "restore_review ru rv db = Inr db'"
  shows "places db' = places db \<and> restricted db' u = restricted db u"
proof -
  from assms obtain rv1 db1 where
    sv: "Review_save
           (rv\<lparr>review_is_archived := False, review_archived_at := None,
               review_archived_by := None\<rparr>)
           (Some [RF_is_archived, RF_archived_at, RF_archived_by]) db = Inr (rv1, db1)"
    and lg: "db' = log_moderation_action ru REVIEW_RESTORED ReviewContent (review_pk rv1)
                     ''Restored archived review via admin.'' db1"
    by (auto simp: restore_review_def split: sum.splits)
  show ?thesis using Review_save_frame[OF sv] lg by simp
qed

lemma restore_reviews_loop_keeps:
  "restore_reviews_loop ru rvs db = Inr db' \<Longrightarrow>
     places db' = places db \<and> restricted db' u = restricted db u"
proof (induction rvs arbitrary: db)
  case Nil then show ?case by simp
next
  case (Cons rv rvs)
  from Cons.prems obtain db1 where s1: "restore_review ru rv db = Inr db1"
    and s2: "restore_reviews_loop ru rvs db1 = Inr db'" by (auto split: sum.splits)
  show ?case using restore_review_keeps[OF s1, of u] Cons.IH[OF s2] by simp
qed

lemma report_review_keeps:
  assumes "ReportReviewView_post ru k txt limited db = Inr db'"
  shows "places db' = places db \<and> restricted db' u = restricted db u"
proof (cases "db' = db")
  case True then show ?thesis by simp
next
  case False
  with assms obtain rv fs d1 rv1 where
    sv: "Review_save rv (Some fs) d1 = Inr (rv1, db')"
    and d1: "places d1 = places db" "contributions d1 = contributions db"
    by (auto simp: ReportReviewView_post_def Let_def
        split: request_user.splits list.splits if_splits sum.splits)
  have "restricted d1 u = restricted db u" using d1 by (simp add: restricted_def)
  then show ?thesis using Review_save_frame[OF sv] d1 by simp
qed

lemma approve_loop_restricted:
  "approve_places_loop ru ps db = Inr db' \<Longrightarrow> restricted db' u = restricted db u"
proof (induction ps arbitrary: db)
  case Nil then show ?case by simp
next
  case (Cons p ps)
  from Cons.prems obtain p1 db1 where
    s1: "Place_save (p\<lparr>moderation_status := APPROVED\<rparr>)
           (Some [PF_moderation_status, PF_is_approved]) db = Inr (p1, db1)"
    and s2: "approve_places_loop ru ps
              (log_moderation_action ru PLACE_APPROVED PlaceContent (pk p1)
                 ''Approved from Place admin action.'' db1) = Inr db'"
    by (auto split: sum.splits)
  show ?case using Place_save_restricted[OF s1, of u] Cons.IH[OF s2] by simp
qed

lemma reject_loop_restricted:
  "reject_places_loop ru ps db = Inr db' \<Longrightarrow> restricted db' u = restricted db u"
proof (induction ps arbitrary: db)
  case Nil then show ?case by simp
next
  case (Cons p ps)
  from Cons.prems obtain p1 db1 where
    s1: "Place_save (p\<lparr>moderation_status := REJECTED, is_approved := False\<rparr>)
           (Some [PF_moderation_status, PF_is_approved]) db = Inr (p1, db1)"
    and s2: "reject_places_loop ru ps
              (log_moderation_action ru PLACE_REJECTED PlaceContent (pk p1)
                 ''Rejected from Place admin action.'' db1) = Inr db'"
    by (auto split: sum.splits)
  show ?case using Place_save_restricted[OF s1, of u] Cons.IH[OF s2] by simp
qed

lemma restore_loop_restricted:
  "restore_places_loop ru ps db = Inr db' \<Longrightarrow> restricted db' u = restricted db u"
proof (induction ps arbitrary: db)
  case Nil then show ?case by simp
next
  case (Cons p ps)
  from Cons.prems obtain p1 db1 where
    s1: "Place_save (p\<lparr>is_archived := False, archived_at := None, archived_by := None\<rparr>)
           (Some [PF_is_archived, PF_archived_at, PF_archived_by]) db = Inr (p1, db1)"
    and s2: "restore_places_loop ru ps
              (log_moderation_action ru PLACE_RESTORED PlaceContent (pk p1)
                 ''Restored via Place admin.'' db1) = Inr db'"
    by (auto split: sum.splits)
  show ?case using Place_save_restricted[OF s1, of u] Cons.IH[OF s2] by simp
qed

lemma archive_place_restricted:
  assumes "archive_place ru now note p db = Inr db'"
  shows "restricted db' u = restricted db u"
proof -
  from assms obtain v p1 db1 where
    s: "Place_save (p\<lparr>is_archived := True, archived_at := Some now, archived_by := Some v,
                     is_approved := False\<rparr>)
        (Some [PF_is_archived, PF_archived_at, PF_archived_by, PF_is_approved]) db = Inr (p1, db1)"
    and d: "db' = log_moderation_action ru PLACE_ARCHIVED PlaceContent (pk p1) note db1"
    by (rule archive_place_cases)
  show ?thesis using Place_save_restricted[OF s, of u] d by simp
qed

lemma archive_loop_restricted:
  "archive_places_loop ru now ps db = Inr db' \<Longrightarrow> restricted db' u = restricted db u"
proof (induction ps arbitrary: db)
  case Nil then show ?case by simp
next
  case (Cons p ps)
  from Cons.prems obtain db1 where
    s1: "archive_place ru now ''Archived via Place admin.'' p db = Inr db1"
    and s2: "archive_places_loop ru now ps db1 = Inr db'"
    by (auto split: sum.splits)
  show ?case using archive_place_restricted[OF s1, of u] Cons.IH[OF s2] by simp
qed



lemma places_in_sync_cong: "places db' = places db \<Longrightarrow> places_in_sync db' = places_in_sync db"
  by (simp add: places_in_sync_def)

lemma create_contribution_keeps:
  "places (create_contribution v c db) = places db \<and>
   restricted (create_contribution v c db) u = restricted db u"
  by (auto simp: create_contribution_def Contribution_get_or_create_def restricted_def
      new_contribution_def split: option.splits)

lemma run_op_keeps:
  assumes "run_op op db = Inr db'"
  shows "(places_in_sync db \<longrightarrow> places_in_sync db') \<and> (restricted db u \<longrightarrow> restricted db' u)"
proof (cases op)
  case (Op_create_user v)
  with assms have "db' = create_contribution v True db" by simp
  then show ?thesis
    using create_contribution_keeps[of v True db u]
      places_in_sync_cong[of "create_contribution v True db" db] by simp
next
  case (Op_set_clock t)
  with assms have "db' = db\<lparr>clock := t\<rparr>" by simp
  then show ?thesis by (simp add: places_in_sync_def restricted_def)
next
  case (Op_Place_save p)
  with assms obtain p' where s: "Place_save p None db = Inr (p', db')"
    by (cases "Place_save p None db") auto
  have "keeps_sync None p db" by (simp add: keeps_sync_def)
  then show ?thesis using Place_save_sync[OF _ s] Place_save_restricted[OF s, of u] by simp
next
  case (Op_opening_hours_save k)
  show ?thesis
  proof (cases "load_places (\<lambda>p. True) [k] db")
    case Nil
    with assms Op_opening_hours_save show ?thesis by simp
  next
    case (Cons p ps)
    with assms Op_opening_hours_save obtain p' where
      s: "Place_save p (Some [PF_other, PF_other, PF_other]) db = Inr (p', db')"
      by (cases "Place_save p (Some [PF_other, PF_other, PF_other]) db")
         (auto simp: opening_hours_save_def)
    have "keeps_sync (Some [PF_other, PF_other, PF_other]) p db" by (simp add: keeps_sync_def)
    then show ?thesis using Place_save_sync[OF _ s] Place_save_restricted[OF s, of u] by simp
  qed
next
  case (Op_approve_places ru qs)
  with assms have
    l: "approve_places_loop ru (load_places (\<lambda>p. moderation_status p \<noteq> APPROVED) qs db) db = Inr db'"
    by (simp add: approve_places_def)
  show ?thesis using approve_loop_sync[OF _ l] approve_loop_restricted[OF l, of u] by simp
next
  case (Op_reject_places ru qs)
  with assms have
    l: "reject_places_loop ru (load_places (\<lambda>p. True) qs db) db = Inr db'"
    by (simp add: reject_places_def)
  show ?thesis using reject_loop_sync[OF _ l] reject_loop_restricted[OF l, of u] by simp
next
  case (Op_archive_places ru qs)
  with assms have
    l: "archive_places_loop ru (clock db) (load_places (\<lambda>p. \<not> is_archived p) qs db) db = Inr db'"
    by (simp add: archive_places_def)
  have f: "\<forall>p \<in> set (load_places (\<lambda>p. \<not> is_archived p) qs db).
             stored_status p db = Some (moderation_status p)"
    using load_places_fresh by blast
  show ?thesis using archive_loop_sync[OF _ l f] archive_loop_restricted[OF l, of u] by simp
next
  case (Op_restore_places ru qs)
  with assms have
    l: "restore_places_loop ru (load_places (\<lambda>p. is_archived p) qs db) db = Inr db'"
    by (simp add: restore_places_def)
  show ?thesis using restore_loop_sync[OF _ l] restore_loop_restricted[OF l, of u] by simp
next
  case (Op_Place_delete_model ru k)
  show ?thesis
  proof (cases "load_places (\<lambda>p. True) [k] db")
    case Nil
    with assms Op_Place_delete_model show ?thesis by simp
  next
    case (Cons p ps)
    then have "p \<in> set (load_places (\<lambda>p. True) [k] db)" by simp
    then have f: "stored_status p db = Some (moderation_status p)" by (rule load_places_fresh)
    from Cons assms Op_Place_delete_model have
      a: "archive_place ru (clock db) ''Archived via single delete in admin.'' p db = Inr db'"
      by (simp add: Place_delete_model_def)
    show ?thesis using archive_place_sync[OF _ a f] archive_place_restricted[OF a, of u] by simp
  qed
next
  case (Op_Review_save r)
  with assms obtain r' where s: "Review_save r None db = Inr (r', db')"
    by (cases "Review_save r None db") auto
  show ?thesis using Review_save_frame[OF s] places_in_sync_cong[of db' db] by simp
next
  case (Op_report_review ru k rsn limited)
  with assms have s: "ReportReviewView_post ru k rsn limited db = Inr db'" by simp
  show ?thesis using report_review_keeps[OF s, of u] places_in_sync_cong[of db' db] by simp
next
  case (Op_uphold_reported_reviews ru qs)
  with assms have
    l: "uphold_loop ru (load_reviews (\<lambda>r. reported r \<and> \<not> review_is_archived r) qs db) db = Inr db'"
    by (simp add: uphold_reported_reviews_def)
  show ?thesis using uphold_loop_keeps[OF l, of u] places_in_sync_cong[of db' db] by simp
next
  case (Op_dismiss_reported_reviews ru qs)
  with assms have
    l: "dismiss_loop ru (load_reviews (\<lambda>r. reported r \<and> \<not> review_is_archived r) qs db) db = Inr db'"
    by (simp add: dismiss_reported_reviews_def)
  show ?thesis using dismiss_loop_keeps[OF l, of u] places_in_sync_cong[of db' db] by simp
next
  case (Op_archive_reviews ru qs)
  with assms have
    l: "archive_reviews_loop ru (clock db) (load_reviews (\<lambda>r. \<not> review_is_archived r) qs db) db
          = Inr db'"
    by (simp add: archive_reviews_def)
  show ?thesis using archive_reviews_loop_keeps[OF l, of u] places_in_sync_cong[of db' db] by simp
next
  case (Op_restore_reviews ru qs)
  with assms have
    l: "restore_reviews_loop ru (load_reviews (\<lambda>r. review_is_archived r) qs db) db = Inr db'"
    by (simp add: restore_reviews_def)
  show ?thesis using restore_reviews_loop_keeps[OF l, of u] places_in_sync_cong[of db' db] by simp
next
  case (Op_Review_delete_model ru k)
  show ?thesis
  proof (cases "load_reviews (\<lambda>r. True) [k] db")
    case Nil
    with assms Op_Review_delete_model show ?thesis by simp
  next
    case (Cons r rs)
    with assms Op_Review_delete_model have
      a: "archive_review ru (clock db) ''Archived via single delete in admin.'' r db = Inr db'"
      by (simp add: Review_delete_model_def)
    show ?thesis using archive_review_keeps[OF a, of u] places_in_sync_cong[of db' db] by simp
  qed
next
  case (Op_mark_upheld qs)
  with assms have "db' = mark_upheld qs db" by simp
  then show ?thesis by (simp add: mark_upheld_def places_in_sync_def restricted_def)
next
  case (Op_mark_dismissed qs)
  with assms have "db' = mark_dismissed qs db" by simp
  then show ?thesis by (simp add: mark_dismissed_def places_in_sync_def restricted_def)
qed

lemma run_ops_keeps:
  "run_ops ops db = Inr db' \<Longrightarrow>
     (places_in_sync db \<longrightarrow> places_in_sync db') \<and> (restricted db u \<longrightarrow> restricted db' u)"
proof (induction ops arbitrary: db)
  case Nil then show ?case by simp
next
  case (Cons op ops)
  from Cons.prems obtain db1 where s1: "run_op op db = Inr db1"
    and s2: "run_ops ops db1 = Inr db'" by (auto split: sum.splits)
  show ?case using run_op_keeps[OF s1, of u] Cons.IH[OF s2] by blast
qed

section \<open>The points of the ledger never fall below zero\<close>

lemma points_nonneg_cong:
  "contributions db' = contributions db \<Longrightarrow> points_nonneg db' = points_nonneg db"
  by (simp add: points_nonneg_def ledger_row_def)

lemma points_nonneg_empty: "points_nonneg empty_database"
  by (simp add: points_nonneg_def ledger_row_def empty_database_def new_contribution_def)

lemma points_nonneg_stored:
  "points_nonneg db \<Longrightarrow> contributions db u = Some c \<Longrightarrow> 0 \<le> points c"
  unfolding points_nonneg_def ledger_row_def
  by (drule spec[of _ u]) simp

lemma points_nonneg_log [simp]:
  "points_nonneg (log_moderation_action ru a ct oid n db) = points_nonneg db"
  by (rule points_nonneg_cong) simp

lemma points_nonneg_update_pending_reports [simp]:
  "points_nonneg (update_pending_reports rv s db) = points_nonneg db"
  by (rule points_nonneg_cong) simp

lemma points_nonneg_upd:
  "points_nonneg db \<Longrightarrow> 0 \<le> points c \<Longrightarrow>
     points_nonneg (db\<lparr>contributions := (contributions db)(v \<mapsto> c)\<rparr>)"
  by (simp add: points_nonneg_def ledger_row_def)

lemma Place_save_nonneg:
  assumes "Place_save p uf db = Inr (p', db')" "points_nonneg db"
  shows "points_nonneg db'"
proof -
  have l: "0 \<le> points (ledger_row db (the (created_by p)))"
    using assms(2) by (simp add: points_nonneg_def)
  show ?thesis
    using Place_save_contributions[OF assms(1)] assms(2) l
    by (auto simp: points_nonneg_def ledger_row_def split: if_splits)
qed

lemma award_review_nonneg:
  assumes "award_points_for_review i created db = Inr db'" "points_nonneg db"
  shows "points_nonneg db'"
proof -
  have l: "0 \<le> points (ledger_row db (the (review_user i)))"
    using assms(2) by (simp add: points_nonneg_def)
  show ?thesis
    using assms points_nonneg_upd[OF assms(2), of
        "(ledger_row db (the (review_user i)))
                   \<lparr>reviews_added := reviews_added (ledger_row db (the (review_user i))) + 1,
                    points := points (ledger_row db (the (review_user i))) + 10\<rparr>"
        "the (review_user i)"] l
    by (auto simp: award_review_total split: if_splits)
qed

lemma apply_penalty_nonneg:
  assumes "apply_penalty v db = Inr db'" "points_nonneg db"
  shows "points_nonneg db'"
  using assms points_nonneg_upd[OF assms(2), of
        "(ledger_row db v)
              \<lparr>points := max 0 (points (ledger_row db v) - 30),
               upheld_reports_count := upheld_reports_count (ledger_row db v) + 1,
               review_restriction_active :=
                 (review_restriction_active (ledger_row db v) \<or>
                  upheld_reports_count (ledger_row db v) + 1 \<ge> 3)\<rparr>" v]
  by (auto simp: apply_penalty_total)

lemma Review_insert_nonneg:
  assumes "Review_insert k r db = Inr (r', db')" "points_nonneg db"
  shows "points_nonneg db'"
proof -
  from assms obtain dbm where
    a: "award_points_for_review (r\<lparr>review_pk := Some k, created_at := clock db\<rparr>) True dbm = Inr db'"
    and m: "dbm = db\<lparr>reviews := AList.update k (r\<lparr>review_pk := Some k, created_at := clock db\<rparr>) (reviews db),
                    review_seq := max (review_seq db) (Suc k)\<rparr>"
    by (auto simp: Review_insert_def Let_def split: if_splits sum.splits)
  have "points_nonneg dbm = points_nonneg db" by (rule points_nonneg_cong) (simp add: m)
  then show ?thesis using award_review_nonneg[OF a] assms(2) by simp
qed

lemma Review_save_nonneg:
  assumes "Review_save r uf db = Inr (r', db')" "points_nonneg db"
  shows "points_nonneg db'"
proof (cases "uf = Some []")
  case True
  with assms show ?thesis by (simp add: Review_save_def)
next
  case False
  show ?thesis
  proof (cases "review_pk r")
    case None
    with assms False have "Review_insert (review_seq db) r db = Inr (r', db')"
      by (auto simp: Review_save_def split: option.splits if_splits)
    then show ?thesis using assms(2) by (rule Review_insert_nonneg)
  next
    case (Some k)
    show ?thesis
    proof (cases "map_of (reviews db) k")
      case None
      with assms False Some have "Review_insert k r db = Inr (r', db')"
        by (auto simp: Review_save_def split: option.splits if_splits)
      then show ?thesis using assms(2) by (rule Review_insert_nonneg)
    next
      case (Some row)
      with assms False \<open>review_pk r = Some k\<close> obtain nr where
        "award_points_for_review r False (db\<lparr>reviews := AList.update k nr (reviews db)\<rparr>) = Inr db'"
        by (auto simp: Review_save_def Let_def split: if_splits sum.splits)
      then have "contributions db' = contributions db" by (auto simp: award_review_total)
      then show ?thesis using assms(2) points_nonneg_cong by blast
    qed
  qed
qed

lemma uphold_review_nonneg:
  assumes "uphold_review ru rv db = Inr db'" "points_nonneg db"
  shows "points_nonneg db'"
proof (cases "review_user rv = None \<or> moderation_penalty_applied rv")
  case True
  from assms obtain rv3 db3 where
    sv: "Review_save (rv\<lparr>review_is_approved := False, reported := False\<rparr>)
             (Some [RF_is_approved, RF_reported, RF_moderation_penalty_applied])
             (update_pending_reports rv UPHELD db) = Inr (rv3, db3)"
    and lg: "db' = log_moderation_action ru REVIEW_UPHELD ReviewContent (review_pk rv3)
                 ''Upheld reported review in admin.'' db3"
    unfolding uphold_review_nopen[OF True] by (auto split: sum.splits)
  show ?thesis using Review_save_nonneg[OF sv] assms(2) lg by simp
next
  case False
  then obtain v where v: "review_user rv = Some v" "\<not> moderation_penalty_applied rv" by auto
  obtain dbp where p: "apply_penalty v (update_pending_reports rv UPHELD db) = Inr dbp"
    by (simp add: apply_penalty_total)
  from assms obtain rv3 db3 where
    sv: "Review_save (rv\<lparr>review_is_approved := False, reported := False,
                 moderation_penalty_applied := True\<rparr>)
             (Some [RF_is_approved, RF_reported, RF_moderation_penalty_applied]) dbp
           = Inr (rv3, db3)"
    and lg: "db' = log_moderation_action ru REVIEW_UPHELD ReviewContent (review_pk rv3)
                 ''Upheld reported review in admin.'' db3"
    unfolding uphold_review_pen[OF v p] by (auto split: sum.splits)
  have a: "points_nonneg dbp"
    using apply_penalty_nonneg[OF p] assms(2) by simp
  show ?thesis using Review_save_nonneg[OF sv a] lg by simp
qed

lemma uphold_loop_nonneg:
  "uphold_loop ru rvs db = Inr db' \<Longrightarrow> points_nonneg db \<Longrightarrow> points_nonneg db'"
proof (induction rvs arbitrary: db)
  case Nil then show ?case by simp
next
  case (Cons rv rvs)
  from Cons.prems obtain db1 where s1: "uphold_review ru rv db = Inr db1"
    and s2: "uphold_loop ru rvs db1 = Inr db'" by (auto split: sum.splits)
  show ?case using uphold_review_nonneg[OF s1 Cons.prems(2)] Cons.IH[OF s2] by simp
qed

lemma dismiss_review_nonneg:
  assumes "dismiss_review ru rv db = Inr db'" "points_nonneg db"
  shows "points_nonneg db'"
proof -
  from assms obtain rv1 db1 where
    sv: "Review_save (rv\<lparr>reported := False\<rparr>) (Some [RF_reported])
           (update_pending_reports rv DISMISSED db) = Inr (rv1, db1)"
    and lg: "db' = log_moderation_action ru REVIEW_DISMISSED ReviewContent (review_pk rv1)
                     ''Dismissed reported review in admin.'' db1"
    by (auto simp: dismiss_review_def split: sum.splits)
  show ?thesis using Review_save_nonneg[OF sv] assms(2) lg by simp
qed

lemma dismiss_loop_nonneg:
  "dismiss_loop ru rvs db = Inr db' \<Longrightarrow> points_nonneg db \<Longrightarrow> points_nonneg db'"
proof (induction rvs arbitrary: db)
  case Nil then show ?case by simp
next
  case (Cons rv rvs)
  from Cons.prems obtain db1 where s1: "dismiss_review ru rv db = Inr db1"
    and s2: "dismiss_loop ru rvs db1 = Inr db'" by (auto split: sum.splits)
  show ?case using dismiss_review_nonneg[OF s1 Cons.prems(2)] Cons.IH[OF s2] by simp
qed

lemma archive_review_nonneg:
  assumes "archive_review ru now note rv db = Inr db'" "points_nonneg db"
  shows "points_nonneg db'"
proof -
  from assms obtain aby rv1 db1 where
    sv: "Review_save
           (rv\<lparr>review_is_archived := True, review_archived_at := Some now,
               review_archived_by := aby, review_is_approved := False, reported := False\<rparr>)
           (Some [RF_is_archived, RF_archived_at, RF_archived_by, RF_is_approved, RF_reported]) db
          = Inr (rv1, db1)"
    and lg: "db' = log_moderation_action ru REVIEW_ARCHIVED ReviewContent (review_pk rv1) note db1"
    by (auto simp: archive_review_def split: sum.splits)
  show ?thesis using Review_save_nonneg[OF sv assms(2)] lg by simp
qed

lemma archive_reviews_loop_nonneg:
  "archive_reviews_loop ru now rvs db = Inr db' \<Longrightarrow> points_nonneg db \<Longrightarrow> points_nonneg db'"
proof (induction rvs arbitrary: db)
  case Nil then show ?case by simp
next
  case (Cons rv rvs)
  from Cons.prems obtain db1 where
    s1: "archive_review ru now ''Archived review via admin.'' rv db = Inr db1"
    and s2: "archive_reviews_loop ru now rvs db1 = Inr db'" by (auto split: sum.splits)
  show ?case using archive_review_nonneg[OF s1 Cons.prems(2)] Cons.IH[OF s2] by simp
qed

lemma restore_review_nonneg:
  assumes "restore_review ru rv db = Inr db'" "points_nonneg db"
  shows "points_nonneg db'"
proof -
  from assms obtain rv1 db1 where
    sv: "Review_save
           (rv\<lparr>review_is_archived := False, review_archived_at := None,
               review_archived_by := None\<rparr>)
           (Some [RF_is_archived, RF_archived_at, RF_archived_by]) db = Inr (rv1, db1)"
    and lg: "db' = log_moderation_action ru REVIEW_RESTORED ReviewContent (review_pk rv1)
                     ''Restored archived review via admin.'' db1"
    by (auto simp: restore_review_def split: sum.splits)
  show ?thesis using Review_save_nonneg[OF sv assms(2)] lg by simp
qed

lemma restore_reviews_loop_nonneg:
  "restore_reviews_loop ru rvs db = Inr db' \<Longrightarrow> points_nonneg db \<Longrightarrow> points_nonneg db'"
proof (induction rvs arbitrary: db)
  case Nil then show ?case by simp
next
  case (Cons rv rvs)
  from Cons.prems obtain db1 where s1: "restore_review ru rv db = Inr db1"
    and s2: "restore_reviews_loop ru rvs db1 = Inr db'" by (auto split: sum.splits)
  show ?case using restore_review_nonneg[OF s1 Cons.prems(2)] Cons.IH[OF s2] by simp
qed

lemma report_review_nonneg:
  assumes "ReportReviewView_post ru k rsn limited db = Inr db'" "points_nonneg db"
  shows "points_nonneg db'"
proof (cases "db' = db")
  case True then show ?thesis using assms(2) by simp
next
  case False
  with assms obtain rv fs d1 rv1 where
    sv: "Review_save rv (Some fs) d1 = Inr (rv1, db')"
    and d1: "places d1 = places db" "contributions d1 = contributions db"
    by (auto simp: ReportReviewView_post_def Let_def
        split: request_user.splits list.splits if_splits sum.splits)
  have "points_nonneg d1" using points_nonneg_cong[OF d1(2)] assms(2) by simp
  then show ?thesis using Review_save_nonneg[OF sv] by simp
qed

lemma approve_loop_nonneg:
  "approve_places_loop ru ps db = Inr db' \<Longrightarrow> points_nonneg db \<Longrightarrow> points_nonneg db'"
proof (induction ps arbitrary: db)
  case Nil then show ?case by simp
next
  case (Cons p ps)
  from Cons.prems obtain p1 db1 where
    s1: "Place_save (p\<lparr>moderation_status := APPROVED\<rparr>)
           (Some [PF_moderation_status, PF_is_approved]) db = Inr (p1, db1)"
    and s2: "approve_places_loop ru ps
              (log_moderation_action ru PLACE_APPROVED PlaceContent (pk p1)
                 ''Approved from Place admin action.'' db1) = Inr db'"
    by (auto split: sum.splits)
  show ?case using Place_save_nonneg[OF s1 Cons.prems(2)] Cons.IH[OF s2] by simp
qed

lemma reject_loop_nonneg:
  "reject_places_loop ru ps db = Inr db' \<Longrightarrow> points_nonneg db \<Longrightarrow> points_nonneg db'"
proof (induction ps arbitrary: db)
  case Nil then show ?case by simp
next
  case (Cons p ps)
  from Cons.prems obtain p1 db1 where
    s1: "Place_save (p\<lparr>moderation_status := REJECTED, is_approved := False\<rparr>)
           (Some [PF_moderation_status, PF_is_approved]) db = Inr (p1, db1)"
    and s2: "reject_places_loop ru ps
              (log_moderation_action ru PLACE_REJECTED PlaceContent (pk p1)
                 ''Rejected from Place admin action.'' db1) = Inr db'"
    by (auto split: sum.splits)
  show ?case using Place_save_nonneg[OF s1 Cons.prems(2)] Cons.IH[OF s2] by simp
qed

lemma restore_loop_nonneg:
  "restore_places_loop ru ps db = Inr db' \<Longrightarrow> points_nonneg db \<Longrightarrow> points_nonneg db'"
proof (induction ps arbitrary: db)
  case Nil then show ?case by simp
next
  case (Cons p ps)
  from Cons.prems obtain p1 db1 where
    s1: "Place_save (p\<lparr>is_archived := False, archived_at := None, archived_by := None\<rparr>)
           (Some [PF_is_archived, PF_archived_at, PF_archived_by]) db = Inr (p1, db1)"
    and s2: "restore_places_loop ru ps
              (log_moderation_action ru PLACE_RESTORED PlaceContent (pk p1)
                 ''Restored via Place admin.'' db1) = Inr db'"
    by (auto split: sum.splits)
  show ?case using Place_save_nonneg[OF s1 Cons.prems(2)] Cons.IH[OF s2] by simp
qed

lemma archive_place_nonneg:
  assumes "archive_place ru now note p db = Inr db'" "points_nonneg db"
  shows "points_nonneg db'"
proof -
  from assms(1) obtain v p1 db1 where
    s: "Place_save (p\<lparr>is_archived := True, archived_at := Some now, archived_by := Some v,
                     is_approved := False\<rparr>)
        (Some [PF_is_archived, PF_archived_at, PF_archived_by, PF_is_approved]) db = Inr (p1, db1)"
    and d: "db' = log_moderation_action ru PLACE_ARCHIVED PlaceContent (pk p1) note db1"
    by (rule archive_place_cases)
  show ?thesis using Place_save_nonneg[OF s assms(2)] d by simp
qed

lemma archive_loop_nonneg:
  "archive_places_loop ru now ps db = Inr db' \<Longrightarrow> points_nonneg db \<Longrightarrow> points_nonneg db'"
proof (induction ps arbitrary: db)
  case Nil then show ?case by simp
next
  case (Cons p ps)
  from Cons.prems obtain db1 where
    s1: "archive_place ru now ''Archived via Place admin.'' p db = Inr db1"
    and s2: "archive_places_loop ru now ps db1 = Inr db'"
    by (auto split: sum.splits)
  show ?case using archive_place_nonneg[OF s1 Cons.prems(2)] Cons.IH[OF s2] by simp
qed

lemma create_contribution_nonneg:
  "points_nonneg db \<Longrightarrow> points_nonneg (create_contribution v c db)"
  by (auto simp: create_contribution_def Contribution_get_or_create_def points_nonneg_def
      ledger_row_def new_contribution_def split: option.splits)

lemma run_op_nonneg:
  assumes "run_op op db = Inr db'" "points_nonneg db"
  shows "points_nonneg db'"
proof (cases op)
  case (Op_create_user v)
  with assms have "db' = create_contribution v True db" by simp
  then show ?thesis using create_contribution_nonneg[OF assms(2)] by simp
next
  case (Op_set_clock t)
  with assms have "db' = db\<lparr>clock := t\<rparr>" by simp
  then have "contributions db' = contributions db" by simp
  then show ?thesis using points_nonneg_cong assms(2) by blast
next
  case (Op_Place_save p)
  with assms obtain p' where s: "Place_save p None db = Inr (p', db')"
    by (cases "Place_save p None db") auto
  show ?thesis by (rule Place_save_nonneg[OF s assms(2)])
next
  case (Op_opening_hours_save k)
  show ?thesis
  proof (cases "load_places (\<lambda>p. True) [k] db")
    case Nil
    with assms Op_opening_hours_save show ?thesis by simp
  next
    case (Cons p ps)
    with assms Op_opening_hours_save obtain p' where
      s: "Place_save p (Some [PF_other, PF_other, PF_other]) db = Inr (p', db')"
      by (cases "Place_save p (Some [PF_other, PF_other, PF_other]) db")
         (auto simp: opening_hours_save_def)
    show ?thesis by (rule Place_save_nonneg[OF s assms(2)])
  qed
next
  case (Op_approve_places ru qs)
  with assms have
    l: "approve_places_loop ru (load_places (\<lambda>p. moderation_status p \<noteq> APPROVED) qs db) db = Inr db'"
    by (simp add: approve_places_def)
  show ?thesis by (rule approve_loop_nonneg[OF l assms(2)])
next
  case (Op_reject_places ru qs)
  with assms have
    l: "reject_places_loop ru (load_places (\<lambda>p. True) qs db) db = Inr db'"
    by (simp add: reject_places_def)
  show ?thesis by (rule reject_loop_nonneg[OF l assms(2)])
next
  case (Op_archive_places ru qs)
  with assms have
    l: "archive_places_loop ru (clock db) (load_places (\<lambda>p. \<not> is_archived p) qs db) db = Inr db'"
    by (simp add: archive_places_def)
  show ?thesis by (rule archive_loop_nonneg[OF l assms(2)])
next
  case (Op_restore_places ru qs)
  with assms have
    l: "restore_places_loop ru (load_places (\<lambda>p. is_archived p) qs db) db = Inr db'"
    by (simp add: restore_places_def)
  show ?thesis by (rule restore_loop_nonneg[OF l assms(2)])
next
  case (Op_Place_delete_model ru k)
  show ?thesis
  proof (cases "load_places (\<lambda>p. True) [k] db")
    case Nil
    with assms Op_Place_delete_model show ?thesis by simp
  next
    case (Cons p ps)
    from Cons assms Op_Place_delete_model have
      a: "archive_place ru (clock db) ''Archived via single delete in admin.'' p db = Inr db'"
      by (simp add: Place_delete_model_def)
    show ?thesis by (rule archive_place_nonneg[OF a assms(2)])
  qed
next
  case (Op_Review_save r)
  with assms obtain r' where s: "Review_save r None db = Inr (r', db')"
    by (cases "Review_save r None db") auto
  show ?thesis by (rule Review_save_nonneg[OF s assms(2)])
next
  case (Op_report_review ru k rsn limited)
  with assms have s: "ReportReviewView_post ru k rsn limited db = Inr db'" by simp
  show ?thesis by (rule report_review_nonneg[OF s assms(2)])
next
  case (Op_uphold_reported_reviews ru qs)
  with assms have
    l: "uphold_loop ru (load_reviews (\<lambda>r. reported r \<and> \<not> review_is_archived r) qs db) db = Inr db'"
    by (simp add: uphold_reported_reviews_def)
  show ?thesis by (rule uphold_loop_nonneg[OF l assms(2)])
next
  case (Op_dismiss_reported_reviews ru qs)
  with assms have
    l: "dismiss_loop ru (load_reviews (\<lambda>r. reported r \<and> \<not> review_is_archived r) qs db) db = Inr db'"
    by (simp add: dismiss_reported_reviews_def)
  show ?thesis by (rule dismiss_loop_nonneg[OF l assms(2)])
next
  case (Op_archive_reviews ru qs)
  with assms have
    l: "archive_reviews_loop ru (clock db) (load_reviews (\<lambda>r. \<not> review_is_archived r) qs db) db
          = Inr db'"
    by (simp add: archive_reviews_def)
  show ?thesis by (rule archive_reviews_loop_nonneg[OF l assms(2)])
next
  case (Op_restore_reviews ru qs)
  with assms have
    l: "restore_reviews_loop ru (load_reviews (\<lambda>r. review_is_archived r) qs db) db = Inr db'"
    by (simp add: restore_reviews_def)
  show ?thesis by (rule restore_reviews_loop_nonneg[OF l assms(2)])
next
  case (Op_Review_delete_model ru k)
  show ?thesis
  proof (cases "load_reviews (\<lambda>r. True) [k] db")
    case Nil
    with assms Op_Review_delete_model show ?thesis by simp
  next
    case (Cons r rs)
    with assms Op_Review_delete_model have
      a: "archive_review ru (clock db) ''Archived via single delete in admin.'' r db = Inr db'"
      by (simp add: Review_delete_model_def)
    show ?thesis by (rule archive_review_nonneg[OF a assms(2)])
  qed
next
  case (Op_mark_upheld qs)
  with assms have "db' = mark_upheld qs db" by simp
  then have "contributions db' = contributions db" by (simp add: mark_upheld_def)
  then show ?thesis using points_nonneg_cong assms(2) by blast
next
  case (Op_mark_dismissed qs)
  with assms have "db' = mark_dismissed qs db" by simp
  then have "contributions db' = contributions db" by (simp add: mark_dismissed_def)
  then show ?thesis using points_nonneg_cong assms(2) by blast
qed

lemma run_ops_nonneg:
  "run_ops ops db = Inr db' \<Longrightarrow> points_nonneg db \<Longrightarrow> points_nonneg db'"
proof (induction ops arbitrary: db)
  case Nil then show ?case by simp
next
  case (Cons op ops)
  from Cons.prems obtain db1 where s1: "run_op op db = Inr db1"
    and s2: "run_ops ops db1 = Inr db'" by (auto split: sum.splits)
  show ?case using run_op_nonneg[OF s1 Cons.prems(2)] Cons.IH[OF s2] by simp
qed

section \<open>Effects of single saves and of the uphold action\<close>

lemma set_previous_status_stored:
  "pk p \<noteq> Some 0 \<Longrightarrow> set_previous_status p db = stored_status p db"
  by (auto simp: set_previous_status_def stored_status_def pk_truthy_def split: option.splits)

lemma Place_save_full_stored:
  assumes "Place_save p None db = Inr (p', db')"
  shows "\<exists>k. pk p' = Some k \<and> map_of (places db') k = Some p'"
  using assms
  by (auto simp: Place_save_def Place_save_table_def Let_def award_total update_conv'
      split: if_splits sum.splits option.splits)

lemma Review_save_fields_contributions:
  assumes "Review_save r (Some fs) db = Inr (r', db')"
  shows "contributions db' = contributions db"
proof (cases "fs = []")
  case True
  with assms show ?thesis by (simp add: Review_save_def)
next
  case False
  with assms obtain k row nr where
    "award_points_for_review r False (db\<lparr>reviews := AList.update k nr (reviews db)\<rparr>) = Inr db'"
    by (auto simp: Review_save_def Let_def split: option.splits if_splits sum.splits)
  then show ?thesis by (auto simp: award_review_total)
qed









lemma places_in_sync_empty: "places_in_sync empty_database"
  by (simp add: places_in_sync_def empty_database_def)

lemmas scenario_defs =
  empty_database_def create_contribution_def Contribution_get_or_create_def Place_save_def
  Place_save_table_def connected_senders_def set_previous_status_def pk_truthy_def
  award_points_if_newly_approved_def Contribution_save_def write_contribution_fields_def
  new_contribution_def approve_places_def load_places_def List.map_filter_def
  archive_places_def archive_place_def restore_places_def assign_user_def
  log_moderation_action_def write_place_fields_def Let_def harbor_walk_def

section \<open>Properties of the spam checks\<close>

text \<open>The loop answers whether some recent text is long enough and similar enough; the
  second lemma is \<^verbatim>\<open>test_normalize_text_basic\<close>.\<close>

lemma similar_to_any_iff:
  "similar_to_any ratio candidate texts =
     list_ex (\<lambda>existing. 25 \<le> length candidate \<and> 25 \<le> length (normalize_text existing) \<and>
                 85 / 100 \<le> ratio candidate (normalize_text existing)) texts"
  by (induction texts) (auto simp: Let_def)

lemma normalize_text_test:
  "normalize_text '' Hello,  WORLD!! '' = ''hello world''"
  by code_simp

text \<open>The first text of \<^verbatim>\<open>test_duplicate_or_similarity_detection\<close>, stored and
  submitted again in another case: a duplicate whatever the ratio is.\<close>

lemma normalize_text_fixture:
  "normalize_text ''This was an amazing location with scenic views and great facilities.'' =
     ''this was an amazing location with scenic views and great facilities''"
  by code_simp

lemma is_duplicate_exact_example:
  "is_duplicate_or_similar_review ratio
     (empty_database\<lparr>reviews :=
        [(1, punctuation_review\<lparr>review_text :=
               ''This was an amazing location with scenic views and great facilities.''\<rparr>)]\<rparr>)
     1 ''THIS was an amazing location with scenic views and great facilities.''"
proof -
  have n: "normalize_text ''THIS was an amazing location with scenic views and great facilities.'' =
     ''this was an amazing location with scenic views and great facilities''"
    by code_simp
  have l: "lower ''This was an amazing location with scenic views and great facilities.'' =
      lower ''THIS was an amazing location with scenic views and great facilities.''"
    by code_simp
  show ?thesis
    unfolding is_duplicate_or_similar_review_def n
    by (simp add: iexact_def l punctuation_review_def empty_database_def)
qed

section \<open>Properties of the nearby places\<close>




















section \<open>Contribution levels of the totals the ledger holds\<close>

text \<open>
  C7. Every points total the ledger holds is at or above zero: a row starts at zero, a
  review adds ten, an approved place adds fifty, and the penalty of an upheld report is
  floored at zero; so every total stored after any run of the operations from the empty
  database is at or above zero. For every such total, and for every points value at or
  above zero, \<^verbatim>\<open>level_name\<close> is the name attached to the highest threshold at or
  below the points in the table \<open>{0, 50, 120, 250}\<close> (below zero, which no stored total
  is, the loop answers with the first level's name). For every pair of totals
  \<open>P1 \<le> P2\<close> the level of \<open>P1\<close> is at or below the level of \<open>P2\<close> in the table's order.
\<close>

theorem level_name_highest_threshold_and_monotone:
  "(0 \<le> P \<longrightarrow> is_highest_level LEVELS P (level_name P)) \<and>
   (P < 0 \<longrightarrow> level_name P = ''New Explorer'') \<and>
   (P1 \<le> P2 \<longrightarrow> level_rank (level_name P1) \<le> level_rank (level_name P2)) \<and>
   (run_ops ops empty_database = Inr db \<and> contributions db u = Some c \<longrightarrow>
      0 \<le> points c \<and> is_highest_level LEVELS (points c) (level_name (points c)))"
proof (intro conjI impI)
  assume "0 \<le> P"
  then show "is_highest_level LEVELS P (level_name P)"
    by (simp add: level_name_cases is_highest_level_def LEVELS_def)
next
  assume "P < 0"
  then show "level_name P = ''New Explorer''"
    by (simp add: level_name_cases)
next
  assume "P1 \<le> P2"
  then show "level_rank (level_name P1) \<le> level_rank (level_name P2)"
    by (simp add: level_rank_cases)
next
  assume a: "run_ops ops empty_database = Inr db \<and> contributions db u = Some c"
  then have "points_nonneg db"
    using run_ops_nonneg[OF _ points_nonneg_empty] by blast
  then show n: "0 \<le> points c" using a points_nonneg_stored by blast
  then show "is_highest_level LEVELS (points c) (level_name (points c))"
    by (simp add: level_name_cases is_highest_level_def LEVELS_def)
qed

theorem level_name_highest_threshold_and_monotone_witness:
  "is_highest_level LEVELS 130 (level_name 130) \<and> level_name 130 = ''Trusted Guide'' \<and>
   level_name (- 20) = ''New Explorer'' \<and>
   level_rank (level_name 49) \<le> level_rank (level_name 50) \<and>
   level_rank (level_name 49) = 0 \<and> level_rank (level_name 50) = 1 \<and>
   (\<exists>db c. run_ops [Op_create_user 1, Op_Place_save harbor_walk] empty_database = Inr db \<and>
      contributions db 1 = Some c \<and> points c = 50 \<and>
      is_highest_level LEVELS (points c) (level_name (points c)) \<and>
      level_name (points c) = ''Local Contributor'')"
proof -
  let ?c = "\<lparr>places_added = 1, reviews_added = 0, points = 50,
            upheld_reports_count = 0, review_restriction_active = False\<rparr>"
  let ?db = "\<lparr>places = [(1, harbor_walk\<lparr>pk := Some 1, is_approved := True\<rparr>)],
      place_seq = 2, reviews = [], review_seq = 1, contributions = [1 \<mapsto> ?c],
      reports = [], moderation_log = [], clock = 0\<rparr>"
  have r: "run_ops [Op_create_user 1, Op_Place_save harbor_walk] empty_database = Inr ?db"
    by (simp add: scenario_defs)
  have c: "contributions ?db 1 = Some ?c" by simp
  have "is_highest_level LEVELS 130 (level_name 130) \<and>
    level_rank (level_name 49) \<le> level_rank (level_name 50) \<and>
    0 \<le> points ?c \<and> is_highest_level LEVELS (points ?c) (level_name (points ?c))"
    using level_name_highest_threshold_and_monotone
      [of 130 49 50 "[Op_create_user 1, Op_Place_save harbor_walk]" ?db 1 ?c] r c
    by simp
  moreover have "level_name (- 20) = ''New Explorer''"
    using level_name_highest_threshold_and_monotone [of "- 20" 0 0 "[]" empty_database 0 ?c]
    by simp
  moreover have "level_name 130 = ''Trusted Guide''" "level_rank (level_name 49) = 0"
    "level_rank (level_name 50) = 1" "level_name (points ?c) = ''Local Contributor''"
    "points ?c = 50"
    by (simp_all add: level_name_cases level_rank_def LEVELS_def)
  ultimately show ?thesis using r c by blast
qed

section \<open>Moderation of places and reviews: main results\<close>

text \<open>
  C1 (the code departs from the claim at an approved place). \<^verbatim>\<open>archive_places\<close>
  assigns \<^verbatim>\<open>is_approved = False\<close> and names the column in \<^verbatim>\<open>update_fields\<close>, but
  \<^verbatim>\<open>Place.save\<close> first recomputes the instance's flag from \<^verbatim>\<open>moderation_status\<close>,
  and the status of the archived place is still approved: the value written is True. For the
  approved place of the test fixtures, archived by moderator 9, the stored row has
  \<^verbatim>\<open>is_archived\<close>, \<^verbatim>\<open>archived_at\<close> and \<^verbatim>\<open>archived_by\<close> set as claimed and
  \<^verbatim>\<open>is_approved\<close> still True. After \<^verbatim>\<open>restore_places\<close> the three archive columns
  are cleared and \<^verbatim>\<open>is_approved\<close> is True: the place is public again without a new
  approval.
\<close>

theorem archive_leaves_approved_place_flagged:
  "run_ops [Op_create_user 1, Op_Place_save harbor_walk, Op_archive_places (User 9) [1]]
     empty_database =
   Inr \<lparr>places = [(1, harbor_walk\<lparr>pk := Some 1, is_approved := True, is_archived := True,
                       archived_at := Some 0, archived_by := Some 9\<rparr>)],
        place_seq = 2, reviews = [], review_seq = 1,
        contributions = [1 \<mapsto> \<lparr>places_added = 1, reviews_added = 0, points = 50,
                               upheld_reports_count = 0, review_restriction_active = False\<rparr>],
        reports = [],
        moderation_log = [\<lparr>actor = Some 9, action = PLACE_ARCHIVED, target_type = PlaceContent,
                            object_id = Some 1, log_notes = ''Archived via Place admin.''\<rparr>],
        clock = 0\<rparr> \<and>
   run_ops [Op_create_user 1, Op_Place_save harbor_walk, Op_archive_places (User 9) [1],
            Op_restore_places (User 9) [1]] empty_database =
   Inr \<lparr>places = [(1, harbor_walk\<lparr>pk := Some 1, is_approved := True\<rparr>)],
        place_seq = 2, reviews = [], review_seq = 1,
        contributions = [1 \<mapsto> \<lparr>places_added = 1, reviews_added = 0, points = 50,
                               upheld_reports_count = 0, review_restriction_active = False\<rparr>],
        reports = [],
        moderation_log = [\<lparr>actor = Some 9, action = PLACE_ARCHIVED, target_type = PlaceContent,
                            object_id = Some 1, log_notes = ''Archived via Place admin.''\<rparr>,
                          \<lparr>actor = Some 9, action = PLACE_RESTORED, target_type = PlaceContent,
                            object_id = Some 1, log_notes = ''Restored via Place admin.''\<rparr>],
        clock = 0\<rparr>"
  by (simp add: scenario_defs)

text \<open>
  C2. \<^verbatim>\<open>Place.save\<close> overwrites the flag the caller assigned: the instance it leaves
  has \<^verbatim>\<open>is_approved = (moderation_status == APPROVED)\<close>, and a full save stores that
  instance. A save that names columns keeps a synchronised table synchronised when it
  writes both columns, or neither, or the flag alone of an instance that carries the stored
  status. Every save the repository performs is of one of these kinds: after any run of the
  operations from the empty database, every stored place has
  \<^verbatim>\<open>is_approved = (moderation_status == APPROVED)\<close>.
\<close>

theorem is_approved_synchronised_on_every_save:
  "(Place_save p uf db = Inr (p', db') \<longrightarrow> is_approved p' = (moderation_status p' = APPROVED)) \<and>
   (Place_save p None db = Inr (p', db') \<longrightarrow>
      (\<exists>k. pk p' = Some k \<and> map_of (places db') k = Some p')) \<and>
   (places_in_sync db \<and> keeps_sync uf p db \<and> Place_save p uf db = Inr (p', db') \<longrightarrow>
      places_in_sync db') \<and>
   (run_ops ops empty_database = Inr db'' \<and> map_of (places db'') k = Some row \<longrightarrow>
      is_approved row = (moderation_status row = APPROVED))"
proof (intro conjI impI)
  assume "Place_save p uf db = Inr (p', db')"
  then show "is_approved p' = (moderation_status p' = APPROVED)"
    using Place_save_instance[of p uf db p' db'] by simp
next
  assume "Place_save p None db = Inr (p', db')"
  then show "\<exists>k. pk p' = Some k \<and> map_of (places db') k = Some p'"
    by (rule Place_save_full_stored)
next
  assume "places_in_sync db \<and> keeps_sync uf p db \<and> Place_save p uf db = Inr (p', db')"
  then show "places_in_sync db'" using Place_save_sync by blast
next
  assume a: "run_ops ops empty_database = Inr db'' \<and> map_of (places db'') k = Some row"
  then have "places_in_sync db''" using run_ops_keeps places_in_sync_empty by blast
  then have "in_sync row" using a in_sync_lookup by blast
  then show "is_approved row = (moderation_status row = APPROVED)" by (simp add: in_sync_def)
qed

theorem is_approved_synchronised_on_every_save_witness:
  "\<not> is_approved harbor_walk \<and>
   Place_save harbor_walk None (create_contribution 1 True empty_database) =
     Inr (harbor_walk\<lparr>pk := Some 1, is_approved := True\<rparr>,
          \<lparr>places = [(1, harbor_walk\<lparr>pk := Some 1, is_approved := True\<rparr>)],
           place_seq = 2, reviews = [], review_seq = 1,
           contributions = [1 \<mapsto> \<lparr>places_added = 1, reviews_added = 0, points = 50,
                               upheld_reports_count = 0, review_restriction_active = False\<rparr>],
           reports = [], moderation_log = [], clock = 0\<rparr>) \<and>
   is_approved (harbor_walk\<lparr>pk := Some 1, is_approved := True\<rparr>) =
     (moderation_status (harbor_walk\<lparr>pk := Some 1, is_approved := True\<rparr>) = APPROVED) \<and>
   places_in_sync
     \<lparr>places = [(1, harbor_walk\<lparr>pk := Some 1, is_approved := True\<rparr>)],
      place_seq = 2, reviews = [], review_seq = 1,
      contributions = [1 \<mapsto> \<lparr>places_added = 1, reviews_added = 0, points = 50,
                          upheld_reports_count = 0, review_restriction_active = False\<rparr>],
      reports = [], moderation_log = [], clock = 0\<rparr> \<and>
   (\<exists>db. run_ops [Op_create_user 1, Op_Place_save harbor_walk, Op_archive_places (User 9) [1]]
           empty_database = Inr db \<and>
      map_of (places db) 1 =
        Some (harbor_walk\<lparr>pk := Some 1, is_approved := True, is_archived := True,
                archived_at := Some 0, archived_by := Some 9\<rparr>) \<and>
      is_approved (harbor_walk\<lparr>pk := Some 1, is_approved := True, is_archived := True,
                archived_at := Some 0, archived_by := Some 9\<rparr>) =
      (moderation_status (harbor_walk\<lparr>pk := Some 1, is_approved := True, is_archived := True,
                archived_at := Some 0, archived_by := Some 9\<rparr>) = APPROVED))"
proof -
  let ?p' = "harbor_walk\<lparr>pk := Some 1, is_approved := True\<rparr>"
  let ?db' = "\<lparr>places = [(1, ?p')],
      place_seq = 2, reviews = [], review_seq = 1,
      contributions = [1 \<mapsto> \<lparr>places_added = 1, reviews_added = 0, points = 50,
                          upheld_reports_count = 0, review_restriction_active = False\<rparr>],
      reports = [], moderation_log = [], clock = 0\<rparr>"
  let ?row = "harbor_walk\<lparr>pk := Some 1, is_approved := True, is_archived := True,
                archived_at := Some 0, archived_by := Some 9\<rparr>"
  let ?db'' = "?db'\<lparr>places := [(1, ?row)],
       moderation_log := [\<lparr>actor = Some 9, action = PLACE_ARCHIVED, target_type = PlaceContent,
                            object_id = Some 1, log_notes = ''Archived via Place admin.''\<rparr>]\<rparr>"
  have s: "Place_save harbor_walk None (create_contribution 1 True empty_database) = Inr (?p', ?db')"
    by (simp add: scenario_defs)
  have o: "run_ops [Op_create_user 1, Op_Place_save harbor_walk, Op_archive_places (User 9) [1]]
           empty_database = Inr ?db''"
    by (simp add: scenario_defs)
  have y: "places_in_sync (create_contribution 1 True empty_database)"
    by (simp add: places_in_sync_def scenario_defs)
  have k: "keeps_sync None harbor_walk (create_contribution 1 True empty_database)"
    by (simp add: keeps_sync_def)
  have m: "map_of (places ?db'') 1 = Some ?row" by simp
  show ?thesis
    using is_approved_synchronised_on_every_save [of harbor_walk None
        "create_contribution 1 True empty_database" ?p' ?db'
        "[Op_create_user 1, Op_Place_save harbor_walk, Op_archive_places (User 9) [1]]"
        ?db'' 1 ?row] s o y k m
    by (auto simp: harbor_walk_def)
qed

text \<open>
  C3. A save of a place that succeeds (other than the no-op save with an empty
  \<^verbatim>\<open>update_fields\<close>, which sends no signal; the primary key is not 0, which the
  sequence never hands out): when the place has a creator, its status is approved and the
  status stored before the save was not approved (or no row was stored), the creator's
  ledger row, created with the defaults if missing, gets \<^verbatim>\<open>places_added + 1\<close> and
  \<^verbatim>\<open>points + 50\<close>, and no other row changes; when the stored status was already
  approved, or the status saved is not approved, or the place has no creator, the ledger is
  unchanged.
\<close>

theorem award_on_first_approval_only:
  assumes "Place_save p uf db = Inr (p', db')" "pk p \<noteq> Some 0"
  shows "(uf \<noteq> Some [] \<and> created_by p = Some u \<and> moderation_status p = APPROVED \<and>
          stored_status p db \<noteq> Some APPROVED \<longrightarrow>
            contributions db' = (contributions db)(u \<mapsto>
              (ledger_row db u)\<lparr>places_added := places_added (ledger_row db u) + 1,
                                 points := points (ledger_row db u) + 50\<rparr>)) \<and>
         (stored_status p db = Some APPROVED \<or> moderation_status p \<noteq> APPROVED \<or>
          created_by p = None \<longrightarrow> contributions db' = contributions db)"
  using Place_save_contributions[OF assms(1)] set_previous_status_stored[OF assms(2), of db]
  by auto

theorem award_on_first_approval_only_witness:
  "Place_save harbor_walk None (create_contribution 1 True empty_database) =
     Inr (harbor_walk\<lparr>pk := Some 1, is_approved := True\<rparr>,
          \<lparr>places = [(1, harbor_walk\<lparr>pk := Some 1, is_approved := True\<rparr>)],
           place_seq = 2, reviews = [], review_seq = 1,
           contributions = [1 \<mapsto> \<lparr>places_added = 1, reviews_added = 0, points = 50,
                               upheld_reports_count = 0, review_restriction_active = False\<rparr>],
           reports = [], moderation_log = [], clock = 0\<rparr>) \<and>
   (\<exists>p' db'. Place_save (harbor_walk\<lparr>pk := Some 1, is_approved := True\<rparr>) None
        \<lparr>places = [(1, harbor_walk\<lparr>pk := Some 1, is_approved := True\<rparr>)],
           place_seq = 2, reviews = [], review_seq = 1,
           contributions = [1 \<mapsto> \<lparr>places_added = 1, reviews_added = 0, points = 50,
                               upheld_reports_count = 0, review_restriction_active = False\<rparr>],
           reports = [], moderation_log = [], clock = 0\<rparr> = Inr (p', db') \<and>
      contributions db' =
        [1 \<mapsto> \<lparr>places_added = 1, reviews_added = 0, points = 50,
                  upheld_reports_count = 0, review_restriction_active = False\<rparr>])"
proof -
  let ?p' = "harbor_walk\<lparr>pk := Some 1, is_approved := True\<rparr>"
  let ?db' = "\<lparr>places = [(1, ?p')],
      place_seq = 2, reviews = [], review_seq = 1,
      contributions = [1 \<mapsto> \<lparr>places_added = 1, reviews_added = 0, points = 50,
                          upheld_reports_count = 0, review_restriction_active = False\<rparr>],
      reports = [], moderation_log = [], clock = 0\<rparr>"
  have s: "Place_save harbor_walk None (create_contribution 1 True empty_database) = Inr (?p', ?db')"
    by (simp add: scenario_defs)
  have s2: "Place_save ?p' None ?db' = Inr (?p', ?db')"
    by (simp add: scenario_defs)
  have st: "stored_status ?p' ?db' = Some APPROVED"
    "stored_status harbor_walk (create_contribution 1 True empty_database) = None"
    by (simp_all add: stored_status_def harbor_walk_def)
  show ?thesis
    using award_on_first_approval_only [of harbor_walk None
        "create_contribution 1 True empty_database" ?p' ?db' 1]
      award_on_first_approval_only [of ?p' None ?db' ?p' ?db' 1] s s2 st
    by (auto simp: harbor_walk_def)
qed







section \<open>Geocoding lookup: main result\<close>

text \<open>
  C9 (the code departs from the claim and from its own docstring at a malformed payload).
  With HTTP status 200 and a body that is not JSON, \<^verbatim>\<open>response.json()\<close> raises and
  \<^verbatim>\<open>geocode_location\<close> does not return \<^verbatim>\<open>(None, None)\<close>; a JSON body that is not a
  dictionary raises AttributeError at \<^verbatim>\<open>data.get\<close>; a result without
  \<^verbatim>\<open>latitude\<close> raises KeyError; an exception of \<^verbatim>\<open>requests.get\<close> is not caught. On
  the four payloads of the repository's tests (a non-200 status, a status field other than
  200, a missing result, a complete result) the function answers as claimed.
\<close>

theorem geocode_location_raises_on_malformed_payload:
  "geocode_location (Inr \<lparr>status_code = 200, json = None\<rparr>) = Inl JSONDecodeError \<and>
   geocode_location (Inr \<lparr>status_code = 200, json = Some (PyList [])\<rparr>) = Inl AttributeError \<and>
   geocode_location
     (Inr \<lparr>status_code = 200,
           json = Some (PyDict [(''status'', PyInt 200),
                                (''result'', PyDict [(''postcode'', PyStr ''TR1 1AA'')])])\<rparr>) =
     Inl KeyError \<and>
   geocode_location (Inl RequestException) = Inl RequestException \<and>
   geocode_location (Inr \<lparr>status_code = 500, json = Some (PyDict [])\<rparr>) = Inr (PyNone, PyNone) \<and>
   geocode_location
     (Inr \<lparr>status_code = 200,
           json = Some (PyDict [(''status'', PyInt 404), (''result'', PyDict [])])\<rparr>) =
     Inr (PyNone, PyNone) \<and>
   geocode_location
     (Inr \<lparr>status_code = 200,
           json = Some (PyDict [(''status'', PyInt 200), (''result'', PyNone)])\<rparr>) =
     Inr (PyNone, PyNone) \<and>
   geocode_location
     (Inr \<lparr>status_code = 200,
           json = Some (PyDict [(''status'', PyInt 200),
                                (''result'', PyDict [(''latitude'', PyFloat (502 / 10)),
                                                     (''longitude'', PyFloat (- (52 / 10)))])])\<rparr>) =
     Inr (PyFloat (502 / 10), PyFloat (- (52 / 10)))"
  by (simp add: geocode_location_def)

section \<open>Duplicate and similar reviews: main result\<close>

text \<open>
  C6 (as stated, refuted at a text of punctuation only). A review with the text
  \<^verbatim>\<open>!!!\<close> is stored for place 1 and is not archived; the same text is submitted
  again. A stored text equal to the submitted one exists, yet the normalised candidate is
  empty and \<^verbatim>\<open>is_duplicate_or_similar_review\<close> returns False before it looks at the
  table, whatever the similarity ratio is.
\<close>

theorem punctuation_only_duplicate_counterexample:
  "\<forall>ratio.
     list_ex (\<lambda>r. review_place r = 1 \<and> iexact (review_text r) ''!!!'' \<and> \<not> review_is_archived r)
       (map snd (reviews (empty_database\<lparr>reviews := [(1, punctuation_review)]\<rparr>))) \<and>
     normalize_text ''!!!'' = [] \<and>
     \<not> is_duplicate_or_similar_review ratio
         (empty_database\<lparr>reviews := [(1, punctuation_review)]\<rparr>) 1 ''!!!''"
  by (simp add: is_duplicate_or_similar_review_def normalize_text_def lower_def lower_char_def
      remove_punctuation_def is_word_def is_space_def collapse_whitespace_def strip_def
      iexact_def punctuation_review_def)

text \<open>
  C6 (amended). \<^verbatim>\<open>is_duplicate_or_similar_review\<close> returns True exactly when the
  normalised submitted text is not empty and either a review of the place that is not
  archived has a text equal to the submitted one up to case, or one of the fifty most
  recent reviews of the place that are not archived has a normalised text of at least 25
  characters whose similarity ratio with the normalised candidate, itself of at least 25
  characters, is at least 0.85. So a text that normalises to nothing, a short text without
  an exact match, and a dissimilar text without an exact match give False. The ratio is
  any function of the two normalised texts: the statement holds for the library's.
\<close>

theorem is_duplicate_or_similar_review_characterised:
  "is_duplicate_or_similar_review ratio db place text =
     (normalize_text text \<noteq> [] \<and>
      (list_ex (\<lambda>r. review_place r = place \<and> iexact (review_text r) text \<and>
                     \<not> review_is_archived r) (map snd (reviews db)) \<or>
       list_ex (\<lambda>existing. 25 \<le> length (normalize_text text) \<and>
                   25 \<le> length (normalize_text existing) \<and>
                   85 / 100 \<le> ratio (normalize_text text) (normalize_text existing))
         (recent_texts db place)))"
  by (auto simp: is_duplicate_or_similar_review_def Let_def similar_to_any_iff)

section \<open>Nearby places: main result\<close>




end
